theory Spec2Isabelle
  imports Main "HOL-Library.Word" "HOL-Library.Signed_Division" "HOL-Library.Monad_Syntax"
begin

unbundle bit_operations_syntax

section \<open>The 128-bit register and the AES instructions used by AESNI.c\<close>

text \<open>
  \<^verbatim>\<open>typedef unsigned char u8;\<close>  A value of \<^verbatim>\<open>__m128i\<close> is kept as its four 32-bit
  lanes, lane 0 holding bits 31..0, and every lane as its four bytes, least significant
  first.  Byte \<open>4 * c + r\<close> of the register is row \<open>r\<close>, column \<open>c\<close> of the AES state,
  so a lane is a column.
\<close>

type_synonym u8 = "8 word"

datatype lane = Lane u8 u8 u8 u8

datatype m128i = M128 lane lane lane lane

definition lanes :: "m128i \<Rightarrow> lane list" where
  "lanes v = (case v of M128 a b c d \<Rightarrow> [a, b, c, d])"

definition lane_bytes :: "lane \<Rightarrow> u8 list" where
  "lane_bytes l = (case l of Lane a b c d \<Rightarrow> [a, b, c, d])"

definition byte_at :: "u8 list \<Rightarrow> nat \<Rightarrow> u8" where
  \<comment> \<open>a byte of memory; the model holds 0 where its list of bytes has ended\<close>
  "byte_at m i = (if i < length m then m ! i else 0)"

definition lane_at :: "u8 list \<Rightarrow> nat \<Rightarrow> lane" where
  "lane_at m i = Lane (byte_at m i) (byte_at m (i + 1)) (byte_at m (i + 2)) (byte_at m (i + 3))"

definition mm_loadu_si128 :: "u8 list \<Rightarrow> nat \<Rightarrow> m128i" where
  \<comment> \<open>\<^verbatim>\<open>_mm_loadu_si128((const __m128i*) (p + off))\<close>: the 16 bytes from \<open>off\<close> on\<close>
  "mm_loadu_si128 m off =
     M128 (lane_at m off) (lane_at m (off + 4)) (lane_at m (off + 8)) (lane_at m (off + 12))"

definition mm_storeu_si128 :: "m128i \<Rightarrow> u8 list" where
  \<comment> \<open>\<^verbatim>\<open>_mm_storeu_si128\<close>: the 16 bytes written, in memory order\<close>
  "mm_storeu_si128 v = concat (map lane_bytes (lanes v))"

fun lane_xor :: "lane \<Rightarrow> lane \<Rightarrow> lane" where
  "lane_xor (Lane a0 a1 a2 a3) (Lane b0 b1 b2 b3) =
     Lane (a0 XOR b0) (a1 XOR b1) (a2 XOR b2) (a3 XOR b3)"

fun mm_xor_si128 :: "m128i \<Rightarrow> m128i \<Rightarrow> m128i" where
  "mm_xor_si128 (M128 a b c d) (M128 e f g h) =
     M128 (lane_xor a e) (lane_xor b f) (lane_xor c g) (lane_xor d h)"

definition mm_slli_si128 :: "m128i \<Rightarrow> nat \<Rightarrow> m128i" where
  \<comment> \<open>shift the whole register left by \<open>n\<close> bytes, zeros coming in; 16 or more clears it\<close>
  "mm_slli_si128 v n = mm_loadu_si128 (take 16 (replicate n 0 @ mm_storeu_si128 v)) 0"

definition mm_shuffle_epi32 :: "m128i \<Rightarrow> nat \<Rightarrow> m128i" where
  \<comment> \<open>lane \<open>i\<close> of the result is the lane of \<open>v\<close> chosen by bits \<open>2i+1..2i\<close> of the immediate\<close>
  "mm_shuffle_epi32 v imm =
     M128 (lanes v ! (imm mod 4)) (lanes v ! (imm div 4 mod 4))
          (lanes v ! (imm div 16 mod 4)) (lanes v ! (imm div 64 mod 4))"

definition mm_shuffle_pd :: "m128i \<Rightarrow> m128i \<Rightarrow> nat \<Rightarrow> m128i" where
  \<comment> \<open>low half: a 64-bit half of \<open>a\<close> (bit 0 of the immediate picks the upper one); high
      half: a half of \<open>b\<close> (bit 1).  The casts around it in the source change no bit.\<close>
  "mm_shuffle_pd a b imm =
     (case (a, b) of (M128 a0 a1 a2 a3, M128 b0 b1 b2 b3) \<Rightarrow>
        M128 (if odd imm then a2 else a0) (if odd imm then a3 else a1)
             (if odd (imm div 2) then b2 else b0) (if odd (imm div 2) then b3 else b1))"

subsection \<open>S-box, field doubling, the round steps\<close>

definition sbox_tab :: "u8 list" where
  "sbox_tab =
    [
     0x63, 0x7C, 0x77, 0x7B, 0xF2, 0x6B, 0x6F, 0xC5, 0x30, 0x01, 0x67, 0x2B, 0xFE, 0xD7, 0xAB, 0x76,
     0xCA, 0x82, 0xC9, 0x7D, 0xFA, 0x59, 0x47, 0xF0, 0xAD, 0xD4, 0xA2, 0xAF, 0x9C, 0xA4, 0x72, 0xC0,
     0xB7, 0xFD, 0x93, 0x26, 0x36, 0x3F, 0xF7, 0xCC, 0x34, 0xA5, 0xE5, 0xF1, 0x71, 0xD8, 0x31, 0x15,
     0x04, 0xC7, 0x23, 0xC3, 0x18, 0x96, 0x05, 0x9A, 0x07, 0x12, 0x80, 0xE2, 0xEB, 0x27, 0xB2, 0x75,
     0x09, 0x83, 0x2C, 0x1A, 0x1B, 0x6E, 0x5A, 0xA0, 0x52, 0x3B, 0xD6, 0xB3, 0x29, 0xE3, 0x2F, 0x84,
     0x53, 0xD1, 0x00, 0xED, 0x20, 0xFC, 0xB1, 0x5B, 0x6A, 0xCB, 0xBE, 0x39, 0x4A, 0x4C, 0x58, 0xCF,
     0xD0, 0xEF, 0xAA, 0xFB, 0x43, 0x4D, 0x33, 0x85, 0x45, 0xF9, 0x02, 0x7F, 0x50, 0x3C, 0x9F, 0xA8,
     0x51, 0xA3, 0x40, 0x8F, 0x92, 0x9D, 0x38, 0xF5, 0xBC, 0xB6, 0xDA, 0x21, 0x10, 0xFF, 0xF3, 0xD2,
     0xCD, 0x0C, 0x13, 0xEC, 0x5F, 0x97, 0x44, 0x17, 0xC4, 0xA7, 0x7E, 0x3D, 0x64, 0x5D, 0x19, 0x73,
     0x60, 0x81, 0x4F, 0xDC, 0x22, 0x2A, 0x90, 0x88, 0x46, 0xEE, 0xB8, 0x14, 0xDE, 0x5E, 0x0B, 0xDB,
     0xE0, 0x32, 0x3A, 0x0A, 0x49, 0x06, 0x24, 0x5C, 0xC2, 0xD3, 0xAC, 0x62, 0x91, 0x95, 0xE4, 0x79,
     0xE7, 0xC8, 0x37, 0x6D, 0x8D, 0xD5, 0x4E, 0xA9, 0x6C, 0x56, 0xF4, 0xEA, 0x65, 0x7A, 0xAE, 0x08,
     0xBA, 0x78, 0x25, 0x2E, 0x1C, 0xA6, 0xB4, 0xC6, 0xE8, 0xDD, 0x74, 0x1F, 0x4B, 0xBD, 0x8B, 0x8A,
     0x70, 0x3E, 0xB5, 0x66, 0x48, 0x03, 0xF6, 0x0E, 0x61, 0x35, 0x57, 0xB9, 0x86, 0xC1, 0x1D, 0x9E,
     0xE1, 0xF8, 0x98, 0x11, 0x69, 0xD9, 0x8E, 0x94, 0x9B, 0x1E, 0x87, 0xE9, 0xCE, 0x55, 0x28, 0xDF,
     0x8C, 0xA1, 0x89, 0x0D, 0xBF, 0xE6, 0x42, 0x68, 0x41, 0x99, 0x2D, 0x0F, 0xB0, 0x54, 0xBB, 0x16]"

definition inv_sbox_tab :: "u8 list" where
  "inv_sbox_tab =
    [
     0x52, 0x09, 0x6A, 0xD5, 0x30, 0x36, 0xA5, 0x38, 0xBF, 0x40, 0xA3, 0x9E, 0x81, 0xF3, 0xD7, 0xFB,
     0x7C, 0xE3, 0x39, 0x82, 0x9B, 0x2F, 0xFF, 0x87, 0x34, 0x8E, 0x43, 0x44, 0xC4, 0xDE, 0xE9, 0xCB,
     0x54, 0x7B, 0x94, 0x32, 0xA6, 0xC2, 0x23, 0x3D, 0xEE, 0x4C, 0x95, 0x0B, 0x42, 0xFA, 0xC3, 0x4E,
     0x08, 0x2E, 0xA1, 0x66, 0x28, 0xD9, 0x24, 0xB2, 0x76, 0x5B, 0xA2, 0x49, 0x6D, 0x8B, 0xD1, 0x25,
     0x72, 0xF8, 0xF6, 0x64, 0x86, 0x68, 0x98, 0x16, 0xD4, 0xA4, 0x5C, 0xCC, 0x5D, 0x65, 0xB6, 0x92,
     0x6C, 0x70, 0x48, 0x50, 0xFD, 0xED, 0xB9, 0xDA, 0x5E, 0x15, 0x46, 0x57, 0xA7, 0x8D, 0x9D, 0x84,
     0x90, 0xD8, 0xAB, 0x00, 0x8C, 0xBC, 0xD3, 0x0A, 0xF7, 0xE4, 0x58, 0x05, 0xB8, 0xB3, 0x45, 0x06,
     0xD0, 0x2C, 0x1E, 0x8F, 0xCA, 0x3F, 0x0F, 0x02, 0xC1, 0xAF, 0xBD, 0x03, 0x01, 0x13, 0x8A, 0x6B,
     0x3A, 0x91, 0x11, 0x41, 0x4F, 0x67, 0xDC, 0xEA, 0x97, 0xF2, 0xCF, 0xCE, 0xF0, 0xB4, 0xE6, 0x73,
     0x96, 0xAC, 0x74, 0x22, 0xE7, 0xAD, 0x35, 0x85, 0xE2, 0xF9, 0x37, 0xE8, 0x1C, 0x75, 0xDF, 0x6E,
     0x47, 0xF1, 0x1A, 0x71, 0x1D, 0x29, 0xC5, 0x89, 0x6F, 0xB7, 0x62, 0x0E, 0xAA, 0x18, 0xBE, 0x1B,
     0xFC, 0x56, 0x3E, 0x4B, 0xC6, 0xD2, 0x79, 0x20, 0x9A, 0xDB, 0xC0, 0xFE, 0x78, 0xCD, 0x5A, 0xF4,
     0x1F, 0xDD, 0xA8, 0x33, 0x88, 0x07, 0xC7, 0x31, 0xB1, 0x12, 0x10, 0x59, 0x27, 0x80, 0xEC, 0x5F,
     0x60, 0x51, 0x7F, 0xA9, 0x19, 0xB5, 0x4A, 0x0D, 0x2D, 0xE5, 0x7A, 0x9F, 0x93, 0xC9, 0x9C, 0xEF,
     0xA0, 0xE0, 0x3B, 0x4D, 0xAE, 0x2A, 0xF5, 0xB0, 0xC8, 0xEB, 0xBB, 0x3C, 0x83, 0x53, 0x99, 0x61,
     0x17, 0x2B, 0x04, 0x7E, 0xBA, 0x77, 0xD6, 0x26, 0xE1, 0x69, 0x14, 0x63, 0x55, 0x21, 0x0C, 0x7D]"

definition SubByte :: "u8 \<Rightarrow> u8" where
  "SubByte b = sbox_tab ! unat b"

definition InvSubByte :: "u8 \<Rightarrow> u8" where
  "InvSubByte b = inv_sbox_tab ! unat b"

definition xtime :: "u8 \<Rightarrow> u8" where
  \<comment> \<open>multiplication by x in GF(2^8) modulo x^8 + x^4 + x^3 + x + 1\<close>
  "xtime a = push_bit 1 a XOR (if bit a 7 then 0x1B else 0)"

fun SubWord :: "lane \<Rightarrow> lane" where
  "SubWord (Lane a b c d) = Lane (SubByte a) (SubByte b) (SubByte c) (SubByte d)"

fun InvSubWord :: "lane \<Rightarrow> lane" where
  "InvSubWord (Lane a b c d) = Lane (InvSubByte a) (InvSubByte b) (InvSubByte c) (InvSubByte d)"

fun RotWord :: "lane \<Rightarrow> lane" where
  \<comment> \<open>the 32-bit value rotated right by 8 bits\<close>
  "RotWord (Lane a b c d) = Lane b c d a"

fun SubBytes :: "m128i \<Rightarrow> m128i" where
  "SubBytes (M128 a b c d) = M128 (SubWord a) (SubWord b) (SubWord c) (SubWord d)"

fun InvSubBytes :: "m128i \<Rightarrow> m128i" where
  "InvSubBytes (M128 a b c d) = M128 (InvSubWord a) (InvSubWord b) (InvSubWord c) (InvSubWord d)"

fun ShiftRows :: "m128i \<Rightarrow> m128i" where
  "ShiftRows (M128 (Lane a0 a1 a2 a3) (Lane b0 b1 b2 b3) (Lane c0 c1 c2 c3) (Lane d0 d1 d2 d3)) =
     M128 (Lane a0 b1 c2 d3) (Lane b0 c1 d2 a3) (Lane c0 d1 a2 b3) (Lane d0 a1 b2 c3)"

fun InvShiftRows :: "m128i \<Rightarrow> m128i" where
  "InvShiftRows (M128 (Lane a0 a1 a2 a3) (Lane b0 b1 b2 b3) (Lane c0 c1 c2 c3) (Lane d0 d1 d2 d3)) =
     M128 (Lane a0 d1 c2 b3) (Lane b0 a1 d2 c3) (Lane c0 b1 a2 d3) (Lane d0 c1 b2 a3)"

definition mul2 :: "u8 \<Rightarrow> u8" where "mul2 a = xtime a"
definition mul3 :: "u8 \<Rightarrow> u8" where "mul3 a = xtime a XOR a"
definition mul9 :: "u8 \<Rightarrow> u8" where "mul9 a = xtime (xtime (xtime a)) XOR a"
definition mul11 :: "u8 \<Rightarrow> u8" where "mul11 a = xtime (xtime (xtime a)) XOR xtime a XOR a"
definition mul13 :: "u8 \<Rightarrow> u8" where "mul13 a = xtime (xtime (xtime a)) XOR xtime (xtime a) XOR a"
definition mul14 :: "u8 \<Rightarrow> u8" where
  "mul14 a = xtime (xtime (xtime a)) XOR xtime (xtime a) XOR xtime a"

fun MixColumn :: "lane \<Rightarrow> lane" where
  "MixColumn (Lane a0 a1 a2 a3) =
     Lane (mul2 a0 XOR mul3 a1 XOR a2 XOR a3)
          (a0 XOR mul2 a1 XOR mul3 a2 XOR a3)
          (a0 XOR a1 XOR mul2 a2 XOR mul3 a3)
          (mul3 a0 XOR a1 XOR a2 XOR mul2 a3)"

fun InvMixColumn :: "lane \<Rightarrow> lane" where
  "InvMixColumn (Lane a0 a1 a2 a3) =
     Lane (mul14 a0 XOR mul11 a1 XOR mul13 a2 XOR mul9 a3)
          (mul9 a0 XOR mul14 a1 XOR mul11 a2 XOR mul13 a3)
          (mul13 a0 XOR mul9 a1 XOR mul14 a2 XOR mul11 a3)
          (mul11 a0 XOR mul13 a1 XOR mul9 a2 XOR mul14 a3)"

fun MixColumns :: "m128i \<Rightarrow> m128i" where
  "MixColumns (M128 a b c d) = M128 (MixColumn a) (MixColumn b) (MixColumn c) (MixColumn d)"

fun InvMixColumns :: "m128i \<Rightarrow> m128i" where
  "InvMixColumns (M128 a b c d) =
     M128 (InvMixColumn a) (InvMixColumn b) (InvMixColumn c) (InvMixColumn d)"

text \<open>
  The instructions behind the intrinsics, as the processor manual defines them:
  \<^verbatim>\<open>AESENC\<close> is ShiftRows, SubBytes, MixColumns and the round-key XOR, \<^verbatim>\<open>AESENCLAST\<close>
  the same without MixColumns; \<^verbatim>\<open>AESDEC\<close> and \<^verbatim>\<open>AESDECLAST\<close> use the inverse steps;
  \<^verbatim>\<open>AESIMC\<close> is InvMixColumns alone.
\<close>

definition mm_aesenc_si128 :: "m128i \<Rightarrow> m128i \<Rightarrow> m128i" where
  "mm_aesenc_si128 a rk = mm_xor_si128 (MixColumns (SubBytes (ShiftRows a))) rk"

definition mm_aesenclast_si128 :: "m128i \<Rightarrow> m128i \<Rightarrow> m128i" where
  "mm_aesenclast_si128 a rk = mm_xor_si128 (SubBytes (ShiftRows a)) rk"

definition mm_aesdec_si128 :: "m128i \<Rightarrow> m128i \<Rightarrow> m128i" where
  "mm_aesdec_si128 a rk = mm_xor_si128 (InvMixColumns (InvSubBytes (InvShiftRows a))) rk"

definition mm_aesdeclast_si128 :: "m128i \<Rightarrow> m128i \<Rightarrow> m128i" where
  "mm_aesdeclast_si128 a rk = mm_xor_si128 (InvSubBytes (InvShiftRows a)) rk"

definition mm_aesimc_si128 :: "m128i \<Rightarrow> m128i" where
  "mm_aesimc_si128 a = InvMixColumns a"

fun rcon_xor :: "lane \<Rightarrow> u8 \<Rightarrow> lane" where
  \<comment> \<open>XOR with the zero-extended 8-bit round constant\<close>
  "rcon_xor (Lane a b c d) r = Lane (a XOR r) b c d"

definition mm_aeskeygenassist_si128 :: "m128i \<Rightarrow> u8 \<Rightarrow> m128i" where
  "mm_aeskeygenassist_si128 v rcon =
     (case v of M128 x0 x1 x2 x3 \<Rightarrow>
        M128 (SubWord x1) (rcon_xor (RotWord (SubWord x1)) rcon)
             (SubWord x3) (rcon_xor (RotWord (SubWord x3)) rcon))"

section \<open>AESNI.c: key schedules and the block functions\<close>

text \<open>
  \<^verbatim>\<open>typedef struct { __m128i* ek; __m128i* dk; int rounds; } block_state;\<close>
  The two arrays are kept as lists of round keys.
\<close>

record block_state =
  ek :: "m128i list"
  dk :: "m128i list"
  rounds :: int

definition aes128_keyexpand :: "m128i \<Rightarrow> m128i" where
  "aes128_keyexpand key =
     (let key = mm_xor_si128 key (mm_slli_si128 key 4);
          key = mm_xor_si128 key (mm_slli_si128 key 4)
      in mm_xor_si128 key (mm_slli_si128 key 4))"

definition aes192_keyexpand_2 :: "m128i \<Rightarrow> m128i \<Rightarrow> m128i" where
  "aes192_keyexpand_2 key key2 =
     (let key = mm_shuffle_epi32 key 0xff;
          key2 = mm_xor_si128 key2 (mm_slli_si128 key2 4)
      in mm_xor_si128 key key2)"

definition KEYEXP128_H :: "m128i \<Rightarrow> m128i \<Rightarrow> u8 \<Rightarrow> nat \<Rightarrow> m128i" where
  "KEYEXP128_H K1 K2 I S =
     mm_xor_si128 (aes128_keyexpand K1) (mm_shuffle_epi32 (mm_aeskeygenassist_si128 K2 I) S)"

definition KEYEXP128 :: "m128i \<Rightarrow> u8 \<Rightarrow> m128i" where
  "KEYEXP128 K I = KEYEXP128_H K K I 0xff"

definition KEYEXP192 :: "m128i \<Rightarrow> m128i \<Rightarrow> u8 \<Rightarrow> m128i" where
  "KEYEXP192 K1 K2 I = KEYEXP128_H K1 K2 I 0x55"

definition KEYEXP192_2 :: "m128i \<Rightarrow> m128i \<Rightarrow> m128i" where
  "KEYEXP192_2 K1 K2 = aes192_keyexpand_2 K1 K2"

definition KEYEXP256 :: "m128i \<Rightarrow> m128i \<Rightarrow> u8 \<Rightarrow> m128i" where
  "KEYEXP256 K1 K2 I = KEYEXP128_H K1 K2 I 0xff"

definition KEYEXP256_2 :: "m128i \<Rightarrow> m128i \<Rightarrow> m128i" where
  "KEYEXP256_2 K1 K2 = KEYEXP128_H K1 K2 0x00 0xaa"

text \<open>
  Encryption key setup.  \<open>cipherKey\<close> is the memory at the key's address.  The 192-bit
  case loads the 16 bytes at offset 16 as the source does, eight of them beyond a
  24-byte key.  A key length outside the three cases leaves \<open>rk\<close> as it was (the
  \<^verbatim>\<open>switch\<close> has no default).
\<close>

definition aes_key_setup_enc :: "m128i list \<Rightarrow> u8 list \<Rightarrow> int \<Rightarrow> m128i list" where
  "aes_key_setup_enc rk cipherKey keylen =
    (if keylen = 16 then
       (let rk = rk[0 := mm_loadu_si128 cipherKey 0];
            rk = rk[1 := KEYEXP128 (rk ! 0) 0x01];
            rk = rk[2 := KEYEXP128 (rk ! 1) 0x02];
            rk = rk[3 := KEYEXP128 (rk ! 2) 0x04];
            rk = rk[4 := KEYEXP128 (rk ! 3) 0x08];
            rk = rk[5 := KEYEXP128 (rk ! 4) 0x10];
            rk = rk[6 := KEYEXP128 (rk ! 5) 0x20];
            rk = rk[7 := KEYEXP128 (rk ! 6) 0x40];
            rk = rk[8 := KEYEXP128 (rk ! 7) 0x80];
            rk = rk[9 := KEYEXP128 (rk ! 8) 0x1B];
            rk = rk[10 := KEYEXP128 (rk ! 9) 0x36]
        in rk)
     else if keylen = 24 then
       (let rk = rk[0 := mm_loadu_si128 cipherKey 0];
            rk = rk[1 := mm_loadu_si128 cipherKey 16];
            temp0 = KEYEXP192 (rk ! 0) (rk ! 1) 0x01;
            temp1 = KEYEXP192_2 temp0 (rk ! 1);
            rk = rk[1 := mm_shuffle_pd (rk ! 1) temp0 0];
            rk = rk[2 := mm_shuffle_pd temp0 temp1 1];
            rk = rk[3 := KEYEXP192 temp0 temp1 0x02];
            rk = rk[4 := KEYEXP192_2 (rk ! 3) temp1];
            temp0 = KEYEXP192 (rk ! 3) (rk ! 4) 0x04;
            temp1 = KEYEXP192_2 temp0 (rk ! 4);
            rk = rk[4 := mm_shuffle_pd (rk ! 4) temp0 0];
            rk = rk[5 := mm_shuffle_pd temp0 temp1 1];
            rk = rk[6 := KEYEXP192 temp0 temp1 0x08];
            rk = rk[7 := KEYEXP192_2 (rk ! 6) temp1];
            temp0 = KEYEXP192 (rk ! 6) (rk ! 7) 0x10;
            temp1 = KEYEXP192_2 temp0 (rk ! 7);
            rk = rk[7 := mm_shuffle_pd (rk ! 7) temp0 0];
            rk = rk[8 := mm_shuffle_pd temp0 temp1 1];
            rk = rk[9 := KEYEXP192 temp0 temp1 0x20];
            rk = rk[10 := KEYEXP192_2 (rk ! 9) temp1];
            temp0 = KEYEXP192 (rk ! 9) (rk ! 10) 0x40;
            temp1 = KEYEXP192_2 temp0 (rk ! 10);
            rk = rk[10 := mm_shuffle_pd (rk ! 10) temp0 0];
            rk = rk[11 := mm_shuffle_pd temp0 temp1 1];
            rk = rk[12 := KEYEXP192 temp0 temp1 0x80]
        in rk)
     else if keylen = 32 then
       (let rk = rk[0 := mm_loadu_si128 cipherKey 0];
            rk = rk[1 := mm_loadu_si128 cipherKey 16];
            rk = rk[2 := KEYEXP256 (rk ! 0) (rk ! 1) 0x01];
            rk = rk[3 := KEYEXP256_2 (rk ! 1) (rk ! 2)];
            rk = rk[4 := KEYEXP256 (rk ! 2) (rk ! 3) 0x02];
            rk = rk[5 := KEYEXP256_2 (rk ! 3) (rk ! 4)];
            rk = rk[6 := KEYEXP256 (rk ! 4) (rk ! 5) 0x04];
            rk = rk[7 := KEYEXP256_2 (rk ! 5) (rk ! 6)];
            rk = rk[8 := KEYEXP256 (rk ! 6) (rk ! 7) 0x08];
            rk = rk[9 := KEYEXP256_2 (rk ! 7) (rk ! 8)];
            rk = rk[10 := KEYEXP256 (rk ! 8) (rk ! 9) 0x10];
            rk = rk[11 := KEYEXP256_2 (rk ! 9) (rk ! 10)];
            rk = rk[12 := KEYEXP256 (rk ! 10) (rk ! 11) 0x20];
            rk = rk[13 := KEYEXP256_2 (rk ! 11) (rk ! 12)];
            rk = rk[14 := KEYEXP256 (rk ! 12) (rk ! 13) 0x40]
        in rk)
     else rk)"

text \<open>
  Decryption key setup: \<^verbatim>\<open>dk[rounds] = ek[0]\<close>, the loop over \<open>1 \<le> i < rounds\<close> (\<open>nr\<close> below),
  \<^verbatim>\<open>dk[0] = ek[rounds]\<close>.  It is only called with arrays of \<open>rounds + 1\<close> entries.
\<close>

function aes_key_setup_dec_loop :: "m128i list \<Rightarrow> m128i list \<Rightarrow> int \<Rightarrow> int \<Rightarrow> m128i list" where
  "aes_key_setup_dec_loop dks eks nr i =
     (if i < nr
      then aes_key_setup_dec_loop (dks[nat (nr - i) := mm_aesimc_si128 (eks ! nat i)])
             eks nr (i + 1)
      else dks)"
  by pat_completeness auto
termination
  by (relation "measure (\<lambda>(dks, eks, nr, i). nat (nr - i))") auto

declare aes_key_setup_dec_loop.simps [simp del]

definition aes_key_setup_dec :: "m128i list \<Rightarrow> m128i list \<Rightarrow> int \<Rightarrow> m128i list" where
  "aes_key_setup_dec dks eks nr =
     (let dks = dks[nat nr := eks ! 0];
          dks = aes_key_setup_dec_loop dks eks nr 1
      in dks[0 := eks ! nat nr])"

text \<open>
  \<^verbatim>\<open>block_init_aesni\<close>.  The function returns nothing; the model returns the state it
  leaves behind.  \<open>tek\<close> and \<open>tdk\<close> stand for the two calls of
  \<^verbatim>\<open>aligned_malloc_wrapper\<close>: \<open>None\<close> is a failed allocation, \<open>Some f\<close> fresh memory
  whose entry \<open>i\<close> holds \<open>f i\<close> before it is written.
\<close>

definition fresh_array :: "(nat \<Rightarrow> m128i) \<Rightarrow> int \<Rightarrow> m128i list" where
  "fresh_array f n = map f [0..<nat n]"

definition block_init_aesni ::
  "(nat \<Rightarrow> m128i) option \<Rightarrow> (nat \<Rightarrow> m128i) option \<Rightarrow> block_state \<Rightarrow> u8 list \<Rightarrow> int \<Rightarrow> block_state"
where
  "block_init_aesni tek tdk self key keylen =
    (if keylen \<noteq> 16 \<and> keylen \<noteq> 24 \<and> keylen \<noteq> 32 then self
     else
       let nr = (if keylen = 16 then 10 else if keylen = 24 then 12 else 14) in
       (case (tek, tdk) of
          (Some fe, Some fd) \<Rightarrow>
            (let self = self\<lparr>ek := fresh_array fe (nr + 1)\<rparr>;
                 self = self\<lparr>dk := fresh_array fd (nr + 1)\<rparr>;
                 self = self\<lparr>rounds := nr\<rparr>;
                 self = self\<lparr>ek := aes_key_setup_enc (ek self) key keylen\<rparr>
             in self\<lparr>dk := aes_key_setup_dec (dk self) (ek self) nr\<rparr>)
        | _ \<Rightarrow> self))"

definition block_encrypt_aesni :: "block_state \<Rightarrow> u8 list \<Rightarrow> u8 list" where
  \<comment> \<open>\<open>inp\<close>: the memory at \<^verbatim>\<open>in\<close>; the result: the 16 bytes stored at \<^verbatim>\<open>out\<close>\<close>
  "block_encrypt_aesni self inp =
    (let m = mm_loadu_si128 inp 0;
         m = mm_xor_si128 m (ek self ! 0);
         m = mm_aesenc_si128 m (ek self ! 1);
         m = mm_aesenc_si128 m (ek self ! 2);
         m = mm_aesenc_si128 m (ek self ! 3);
         m = mm_aesenc_si128 m (ek self ! 4);
         m = mm_aesenc_si128 m (ek self ! 5);
         m = mm_aesenc_si128 m (ek self ! 6);
         m = mm_aesenc_si128 m (ek self ! 7);
         m = mm_aesenc_si128 m (ek self ! 8);
         m = mm_aesenc_si128 m (ek self ! 9);
         m = (if rounds self \<noteq> 10 then
                (let m = mm_aesenc_si128 m (ek self ! 10);
                     m = mm_aesenc_si128 m (ek self ! 11)
                 in if rounds self = 14 then
                      (let m = mm_aesenc_si128 m (ek self ! 12)
                       in mm_aesenc_si128 m (ek self ! 13))
                    else m)
              else m);
         m = mm_aesenclast_si128 m (ek self ! nat (rounds self))
     in mm_storeu_si128 m)"

definition block_decrypt_aesni :: "block_state \<Rightarrow> u8 list \<Rightarrow> u8 list" where
  "block_decrypt_aesni self inp =
    (let m = mm_loadu_si128 inp 0;
         m = mm_xor_si128 m (dk self ! 0);
         m = mm_aesdec_si128 m (dk self ! 1);
         m = mm_aesdec_si128 m (dk self ! 2);
         m = mm_aesdec_si128 m (dk self ! 3);
         m = mm_aesdec_si128 m (dk self ! 4);
         m = mm_aesdec_si128 m (dk self ! 5);
         m = mm_aesdec_si128 m (dk self ! 6);
         m = mm_aesdec_si128 m (dk self ! 7);
         m = mm_aesdec_si128 m (dk self ! 8);
         m = mm_aesdec_si128 m (dk self ! 9);
         m = (if rounds self \<noteq> 10 then
                (let m = mm_aesdec_si128 m (dk self ! 10);
                     m = mm_aesdec_si128 m (dk self ! 11)
                 in if rounds self = 14 then
                      (let m = mm_aesdec_si128 m (dk self ! 12)
                       in mm_aesdec_si128 m (dk self ! 13))
                    else m)
              else m);
         m = mm_aesdeclast_si128 m (dk self ! nat (rounds self))
     in mm_storeu_si128 m)"

section \<open>drmdecrypt.c\<close>

subsection \<open>What the file takes from outside\<close>

text \<open>\<^verbatim>\<open>#define BLOCK_SIZE 16\<close>, as in AESNI.c.\<close>

definition BLOCK_SIZE :: int where
  "BLOCK_SIZE = 16"

text \<open>
  Modelled from the spec: \<^verbatim>\<open>PACKETSIZE\<close> is defined in buffer.h, which is absent; the
  spec fixes a transport-stream packet at 188 bytes.
\<close>

definition PACKETSIZE :: int where
  "PACKETSIZE = 188"

text \<open>
  The surroundings of a run, one field for each thing drmdecrypt.c takes from outside
  itself.  The portable cipher declared in aes.h has no source file here, so its two
  functions are parameters; \<open>block_decrypt_aes\<close> is given on 16-byte blocks held like a
  register (16 bytes in, 16 bytes out).
\<close>

record env =
  enable_aesni :: bool
    \<comment> \<open>the global flag set once in \<^verbatim>\<open>main\<close>\<close>
  block_init_aes :: "block_state \<Rightarrow> u8 list \<Rightarrow> int \<Rightarrow> block_state"
  block_decrypt_aes :: "block_state \<Rightarrow> m128i \<Rightarrow> m128i"
  tek_alloc :: "(nat \<Rightarrow> m128i) option"
  tdk_alloc :: "(nat \<Rightarrow> m128i) option"
    \<comment> \<open>the two allocations of \<^verbatim>\<open>block_init_aesni\<close>\<close>
  stack_bytes :: "nat \<Rightarrow> u8"
    \<comment> \<open>what the 16 bytes of \<^verbatim>\<open>drmkey\<close> hold before they are written\<close>
  fopen_rb :: "string \<Rightarrow> u8 list option"
    \<comment> \<open>\<^verbatim>\<open>fopen(path, "rb")\<close>: the file's bytes, \<open>None\<close> when it cannot be opened\<close>
  open_wronly :: "string \<Rightarrow> bool"
    \<comment> \<open>\<^verbatim>\<open>open(outfile, O_WRONLY | O_CREAT | O_TRUNC, ...)\<close> does not return -1\<close>
  open_rdonly :: "string \<Rightarrow> bool"
    \<comment> \<open>\<^verbatim>\<open>open(srffile, O_RDONLY)\<close> does not return -1\<close>
  outfile_of :: "string \<Rightarrow> string \<Rightarrow> string"
    \<comment> \<open>the output path built from \<^verbatim>\<open>outdir\<close> and the recording's name (genoutfilename
        or its fallback); it only selects the path that is opened\<close>
  copy_returns :: "string \<Rightarrow> bool"
    \<comment> \<open>whether the read/sync/decode/write loop over this recording comes to its end; it
        runs on the absent buffer layer\<close>

subsection \<open>filename and readdrmkey\<close>

text \<open>
  \<^verbatim>\<open>filename\<close>: \<open>end\<close> starts at the terminating NUL and walks down to the last \<open>.\<close> or
  \<open>/\<close>; the new suffix is copied behind that character, or the string is cut there when
  the suffix is \<^verbatim>\<open>NULL\<close>.  A path with neither character sends the walk below the start
  of the string: \<open>None\<close>.
\<close>

fun filename_end :: "string \<Rightarrow> nat \<Rightarrow> nat option" where
  "filename_end path 0 =
     (if 0 < length path \<and> (path ! 0 = CHR ''.'' \<or> path ! 0 = CHR ''/'') then Some 0 else None)"
| "filename_end path (Suc e) =
     (if Suc e < length path \<and> (path ! Suc e = CHR ''.'' \<or> path ! Suc e = CHR ''/'')
      then Some (Suc e) else filename_end path e)"

definition filename :: "string \<Rightarrow> string option \<Rightarrow> string option" where
  "filename path newsuffix =
     (case filename_end path (length path) of
        None \<Rightarrow> None
      | Some e \<Rightarrow>
          (case newsuffix of
             Some suffix \<Rightarrow> Some (take (Suc e) path @ suffix)
           | None \<Rightarrow> Some (take e path)))"

text \<open>
  The read loop of \<^verbatim>\<open>readdrmkey\<close>: after \<^verbatim>\<open>fseek(mdbfp, 8, SEEK_SET)\<close> sixteen reads of one
  byte each, the \<open>j\<close>-th stored at \<^verbatim>\<open>drmkey[(j&0xc)+(3-(j&3))]\<close>.  \<open>pos\<close> is the file
  position; a read at or beyond the end of the file returns 0 items and the function
  gives up (\<open>None\<close>).
\<close>

function readdrmkey_loop :: "u8 list \<Rightarrow> nat \<Rightarrow> u8 list \<Rightarrow> nat \<Rightarrow> u8 list option" where
  "readdrmkey_loop file pos drmkey j =
     (if j < 0x10 then
        (if pos < length file
         then readdrmkey_loop file (pos + 1)
                (drmkey[(j AND 0xc) + (3 - (j AND 3)) := file ! pos]) (j + 1)
         else None)
      else Some drmkey)"
  by pat_completeness auto
termination
  by (relation "measure (\<lambda>(file, pos, drmkey, j). 0x10 - j)") auto

declare readdrmkey_loop.simps [simp del]

text \<open>
  \<^verbatim>\<open>readdrmkey\<close> returns its status and leaves the global \<^verbatim>\<open>state\<close>, which the model
  returns beside it.  The state is first cleared (both pointers null, here empty lists)
  and given \<open>rounds = 10\<close>.
\<close>

definition readdrmkey :: "env \<Rightarrow> string \<Rightarrow> int \<times> block_state" where
  "readdrmkey E mdbfile =
    (let state = \<lparr>ek = [], dk = [], rounds = 10\<rparr> in
     case fopen_rb E mdbfile of
       Some file \<Rightarrow>
         (case readdrmkey_loop file 8 (map (stack_bytes E) [0..<0x10]) 0 of
            None \<Rightarrow> (1, state)
          | Some drmkey \<Rightarrow>
              (0, if enable_aesni E
                  then block_init_aesni (tek_alloc E) (tdk_alloc E) state drmkey BLOCK_SIZE
                  else block_init_aes E state drmkey BLOCK_SIZE))
     | None \<Rightarrow> (1, state))"

subsection \<open>decrypt\_aes128cbc and decode\_packet\<close>

text \<open>
  Memory is a list of bytes and an access outside it is \<open>None\<close>: every read and write
  of the two functions goes through one of these.
\<close>

definition rd :: "u8 list \<Rightarrow> int \<Rightarrow> u8 option" where
  "rd m i = (if 0 \<le> i \<and> i < int (length m) then Some (m ! nat i) else None)"

definition wr :: "u8 list \<Rightarrow> int \<Rightarrow> u8 \<Rightarrow> u8 list option" where
  "wr m i v = (if 0 \<le> i \<and> i < int (length m) then Some (m[nat i := v]) else None)"

definition rd_bytes :: "u8 list \<Rightarrow> int \<Rightarrow> nat \<Rightarrow> u8 list option" where
  "rd_bytes m i n =
     (if 0 \<le> i \<and> i + int n \<le> int (length m) then Some (take n (drop (nat i) m)) else None)"

definition wr_bytes :: "u8 list \<Rightarrow> int \<Rightarrow> u8 list \<Rightarrow> u8 list option" where
  "wr_bytes m i bs =
     (if 0 \<le> i \<and> i + int (length bs) \<le> int (length m)
      then Some (take (nat i) m @ bs @ drop (nat i + length bs) m) else None)"

definition decrypt_block :: "env \<Rightarrow> block_state \<Rightarrow> u8 list \<Rightarrow> u8 list" where
  \<comment> \<open>the body of the loop of \<^verbatim>\<open>decrypt_aes128cbc\<close>: the 16 bytes written for 16 bytes read\<close>
  "decrypt_block E st blk =
     (if enable_aesni E then block_decrypt_aesni st blk
      else mm_storeu_si128 (block_decrypt_aes E st (mm_loadu_si128 blk 0)))"

text \<open>
  \<^verbatim>\<open>for(i=0; i < len; i+=BLOCK_SIZE)\<close>.  \<^verbatim>\<open>pin\<close> and \<^verbatim>\<open>pout\<close> are pointers into two arrays:
  each is given as the array and an offset into it.
\<close>

function decrypt_aes128cbc_loop ::
  "env \<Rightarrow> block_state \<Rightarrow> u8 list \<Rightarrow> int \<Rightarrow> int \<Rightarrow> u8 list \<Rightarrow> int \<Rightarrow> int \<Rightarrow> u8 list option"
where
  "decrypt_aes128cbc_loop E st pin pin_off len pout pout_off i =
     (if i < len then
        do {
          blk \<leftarrow> rd_bytes pin (pin_off + i) 16;
          pout' \<leftarrow> wr_bytes pout (pout_off + i) (decrypt_block E st blk);
          decrypt_aes128cbc_loop E st pin pin_off len pout' pout_off (i + BLOCK_SIZE)
        }
      else Some pout)"
  by pat_completeness auto
termination
  by (relation "measure (\<lambda>(E, st, pin, pin_off, len, pout, pout_off, i). nat (len - i))")
     (auto simp: BLOCK_SIZE_def)

declare decrypt_aes128cbc_loop.simps [simp del]

definition decrypt_aes128cbc ::
  "env \<Rightarrow> block_state \<Rightarrow> u8 list \<Rightarrow> int \<Rightarrow> int \<Rightarrow> u8 list \<Rightarrow> int \<Rightarrow> (int \<times> u8 list) option"
where
  "decrypt_aes128cbc E st pin pin_off len pout pout_off =
     (if len smod BLOCK_SIZE \<noteq> 0 then Some (1, pout)
      else do {
        pout' \<leftarrow> decrypt_aes128cbc_loop E st pin pin_off len pout pout_off 0;
        Some (0, pout')
      })"

text \<open>
  \<^verbatim>\<open>decode_packet\<close> returns its status and the bytes it leaves at \<^verbatim>\<open>data\<close>.  \<open>tmp\<close> is the
  local array of \<^verbatim>\<open>PACKETSIZE\<close> bytes.  The arguments of the debugging traces are read
  whatever the trace level.  The division of the length is C's, towards zero.
\<close>

definition decode_packet :: "env \<Rightarrow> block_state \<Rightarrow> u8 list \<Rightarrow> (int \<times> u8 list) option" where
  "decode_packet E st data =
     do {
       d0 \<leftarrow> rd data 0;
       if d0 \<noteq> 0x47 then Some (1, data)
       else do {
         tmp \<leftarrow> rd_bytes data 0 (nat PACKETSIZE);
         d2 \<leftarrow> rd data 2;
         d3 \<leftarrow> rd data 3;
         if (d3 AND 0xC0) \<noteq> 0xC0 \<and> (d3 AND 0xC0) \<noteq> 0x80 then Some (1, data)
         else do {
           offset \<leftarrow> (if d3 AND 0x20 \<noteq> 0
                      then do { d4 \<leftarrow> rd data 4; Some (4 + (uint d4 + 1)) }
                      else Some 4);
           t3 \<leftarrow> rd tmp 3;
           tmp \<leftarrow> wr tmp 3 (t3 AND 0x3f);
           (rc, tmp) \<leftarrow> decrypt_aes128cbc E st data offset
                          (((PACKETSIZE - offset) sdiv BLOCK_SIZE) * BLOCK_SIZE) tmp offset;
           data \<leftarrow> wr_bytes data 0 tmp;
           Some (0, data)
         }
       }
     }"

subsection \<open>The search for packet alignment in decryptsrf\<close>

text \<open>
  Modelled from the spec: \<^verbatim>\<open>struct packetbuffer\<close>, \<^verbatim>\<open>pbread\<close> and \<^verbatim>\<open>BUFFERSIZE\<close> belong
  to buffer.h and its source file, which are absent.  The spec describes the window as a
  run of bytes with a read cursor, a valid-data end and an end-of-stream flag.  Pointers
  into the buffer are indices into \<open>storage\<close>; \<^verbatim>\<open>pbread\<close> and \<^verbatim>\<open>BUFFERSIZE\<close> are
  parameters of the functions below.
\<close>

record packetbuffer =
  storage :: "u8 list"
  workp :: nat
  endp :: nat
  end_of_stream :: bool

definition scan_bound :: "int \<Rightarrow> nat" where
  \<comment> \<open>\<^verbatim>\<open>BUFFERSIZE-PACKETSIZE-PACKETSIZE\<close>, compared with the \<^verbatim>\<open>unsigned long i\<close>\<close>
  "scan_bound BUFFERSIZE = nat ((BUFFERSIZE - PACKETSIZE - PACKETSIZE) mod 2 ^ 64)"

definition sync_at :: "packetbuffer \<Rightarrow> nat \<Rightarrow> bool option" where
  \<comment> \<open>the condition of the \<^verbatim>\<open>if\<close> in the scan, its three reads in the order of \<^verbatim>\<open>&&\<close>\<close>
  "sync_at pb i =
     do {
       a \<leftarrow> rd (storage pb) (int (workp pb + i));
       if a \<noteq> 0x47 then Some False
       else do {
         b \<leftarrow> rd (storage pb) (int (workp pb + i) + PACKETSIZE);
         if b \<noteq> 0x47 then Some False
         else do {
           c \<leftarrow> rd (storage pb) (int (workp pb + i) + PACKETSIZE + PACKETSIZE);
           Some (c = 0x47)
         }
       }
     }"

text \<open>
  The \<^verbatim>\<open>for\<close> loop: \<open>Some (Some i)\<close> when it breaks at \<open>i\<close>, \<open>Some None\<close> when it runs
  to its bound, \<open>None\<close> when a read falls outside the storage.
\<close>

function sync_scan :: "packetbuffer \<Rightarrow> nat \<Rightarrow> nat \<Rightarrow> nat option option" where
  "sync_scan pb bound i =
     (if i < bound then
        (case sync_at pb i of
           None \<Rightarrow> None
         | Some True \<Rightarrow> Some (Some i)
         | Some False \<Rightarrow> sync_scan pb bound (Suc i))
      else Some None)"
  by pat_completeness auto
termination
  by (relation "measure (\<lambda>(pb, bound, i). bound - i)") auto

declare sync_scan.simps [simp del]

text \<open>
  \<^verbatim>\<open>while(sync_find == 0 && retries-- > 0)\<close>.  The result is \<open>(sync_find, retries, pb)\<close>
  as the loop leaves them.
\<close>

function sync_loop ::
  "(packetbuffer \<Rightarrow> packetbuffer) \<Rightarrow> int \<Rightarrow> packetbuffer \<Rightarrow> int \<Rightarrow> (int \<times> int \<times> packetbuffer) option"
where
  "sync_loop pbread BUFFERSIZE pb retries =
     (if retries > 0 then
        (let pb = pbread pb in
         case sync_scan pb (scan_bound BUFFERSIZE) 0 of
           None \<Rightarrow> None
         | Some (Some i) \<Rightarrow> Some (1, retries - 1, pb\<lparr>workp := workp pb + i\<rparr>)
         | Some None \<Rightarrow> sync_loop pbread BUFFERSIZE pb (retries - 1))
      else Some (0, retries - 1, pb))"
  by pat_completeness auto
termination
  by (relation "measure (\<lambda>(pbread, BUFFERSIZE, pb, retries). nat retries)") auto

declare sync_loop.simps [simp del]

definition decryptsrf_sync ::
  "(packetbuffer \<Rightarrow> packetbuffer) \<Rightarrow> int \<Rightarrow> packetbuffer \<Rightarrow> (int \<times> int \<times> packetbuffer) option"
where
  \<comment> \<open>from the label \<^verbatim>\<open>resync\<close> to the end of the \<^verbatim>\<open>while\<close>: \<^verbatim>\<open>sync_find = 0; retries = 10;\<close>\<close>
  "decryptsrf_sync pbread BUFFERSIZE pb = sync_loop pbread BUFFERSIZE pb 10"

subsection \<open>decryptsrf and the loop of main\<close>

text \<open>
  The status \<^verbatim>\<open>decryptsrf\<close> returns.  Its three early returns are modelled as written;
  once both files are open the only \<^verbatim>\<open>return\<close> left is \<^verbatim>\<open>return 0\<close> after the copy
  loop.  \<open>None\<close>: the call does not come back with a status (the copy loop does not end,
  or \<^verbatim>\<open>filename\<close> walked out of its string).
\<close>

definition decryptsrf :: "env \<Rightarrow> string \<Rightarrow> string \<Rightarrow> int option" where
  "decryptsrf E srffile outdir =
     do {
       inffile \<leftarrow> filename srffile (Some ''inf'');
       mdbfile \<leftarrow> filename srffile (Some ''mdb'');
       if fst (readdrmkey E mdbfile) \<noteq> 0 then Some 1
       else if \<not> open_wronly E (outfile_of E outdir srffile) then Some 1
       else if \<not> open_rdonly E srffile then Some 1
       else if copy_returns E srffile then Some 0
       else None
     }"

text \<open>
  \<^verbatim>\<open>do { if(decryptsrf(argv[optind], outdir) != 0) break; } while(++optind < argc);\<close>
  The result lists the calls of \<^verbatim>\<open>decryptsrf\<close> in order, each recording with the status
  it returned.
\<close>

function main_loop :: "env \<Rightarrow> string list \<Rightarrow> string \<Rightarrow> nat \<Rightarrow> (string \<times> int) list option" where
  "main_loop E argv outdir optind =
     do {
       rc \<leftarrow> decryptsrf E (argv ! optind) outdir;
       if rc \<noteq> 0 then Some [(argv ! optind, rc)]
       else if Suc optind < length argv
       then do {
         calls \<leftarrow> main_loop E argv outdir (Suc optind);
         Some ((argv ! optind, rc) # calls)
       }
       else Some [(argv ! optind, rc)]
     }"
  by pat_completeness auto
termination
  by (relation "measure (\<lambda>(E, argv, outdir, optind). length argv - optind)") auto

declare main_loop.simps [simp del]

text \<open>
  \<^verbatim>\<open>main\<close> from the test \<^verbatim>\<open>argc == optind\<close> on, the options parsed and \<^verbatim>\<open>outdir\<close>
  settled: the exit status of the process and the calls made.
\<close>

definition main_run :: "env \<Rightarrow> string list \<Rightarrow> string \<Rightarrow> nat \<Rightarrow> (int \<times> (string \<times> int) list) option" where
  "main_run E argv outdir optind =
     (if length argv = optind then Some (1, [])
      else do {
        calls \<leftarrow> main_loop E argv outdir optind;
        Some (0, calls)
      })"

subsection \<open>The decryption schedule in the words of the specification\<close>

text \<open>
  The encryption round keys in reverse order, the inverse mix-columns transform applied
  to every one of them except the first and the last.
\<close>

definition decryption_schedule_spec :: "m128i list \<Rightarrow> m128i list" where
  "decryption_schedule_spec eks =
     map (\<lambda>i. if i = 0 \<or> i = length eks - 1 then rev eks ! i
               else mm_aesimc_si128 (rev eks ! i))
       [0..<length eks]"

definition nr_of :: "int \<Rightarrow> nat" where
  \<comment> \<open>the number of rounds \<^verbatim>\<open>block_init_aesni\<close> picks for a key length\<close>
  "nr_of keylen = (if keylen = 16 then 10 else if keylen = 24 then 12 else 14)"

subsection \<open>The packet codec and the synchronizer in the words of the specification\<close>

text \<open>
  Step 3: the payload offset starts at 4; if the adaptation-field-present bit is set,
  \<open>1 + adaptation_field_length_byte\<close> is added.  Step 4: the number of whole 16-byte
  blocks between the payload offset and the packet length.  Steps 5 and 6: the packet
  with these blocks decrypted in place and the scrambling-control bits cleared.
\<close>

definition payload_offset :: "u8 list \<Rightarrow> nat" where
  "payload_offset data = (if data ! 3 AND 0x20 \<noteq> 0 then 4 + (1 + unat (data ! 4)) else 4)"

definition whole_blocks :: "nat \<Rightarrow> nat" where
  "whole_blocks off = (188 - off) div 16"

definition decoded_packet :: "env \<Rightarrow> block_state \<Rightarrow> u8 list \<Rightarrow> nat \<Rightarrow> nat \<Rightarrow> u8 list" where
  "decoded_packet E st data off n =
     (take off data)[3 := data ! 3 AND 0x3f]
     @ concat (map (\<lambda>b. decrypt_block E st (take 16 (drop (off + 16 * b) data))) [0..<n])
     @ drop (off + 16 * n) data"

text \<open>
  The bytes at \<open>i\<close>, \<open>i + 188\<close> and \<open>i + 376\<close> from the read cursor all equal the sync
  marker; and the window that a scan with a given bound reads lies inside the storage.
\<close>

definition sync_pattern_at :: "packetbuffer \<Rightarrow> nat \<Rightarrow> bool" where
  "sync_pattern_at pb i \<longleftrightarrow>
     storage pb ! (workp pb + i) = 0x47 \<and> storage pb ! (workp pb + i + 188) = 0x47
     \<and> storage pb ! (workp pb + i + 376) = 0x47"

definition window_readable :: "packetbuffer \<Rightarrow> nat \<Rightarrow> bool" where
  "window_readable pb bound \<longleftrightarrow> workp pb + bound + 376 \<le> length (storage pb)"

subsection \<open>Concrete inputs\<close>

definition zero128 :: m128i where
  "zero128 = M128 (Lane 0 0 0 0) (Lane 0 0 0 0) (Lane 0 0 0 0) (Lane 0 0 0 0)"

definition null_state :: block_state where
  \<comment> \<open>the state after \<^verbatim>\<open>memset(&state, 0, sizeof(block_state))\<close>\<close>
  "null_state = \<lparr>ek = [], dk = [], rounds = 0\<rparr>"

definition key_0_15 :: "u8 list" where
  "key_0_15 = [0, 1, 2, 3, 4, 5, 6, 7, 8, 9, 10, 11, 12, 13, 14, 15]"

definition block_00_ff :: "u8 list" where
  "block_00_ff = [0x00, 0x11, 0x22, 0x33, 0x44, 0x55, 0x66, 0x77,
                  0x88, 0x99, 0xAA, 0xBB, 0xCC, 0xDD, 0xEE, 0xFF]"

definition mdb_demo :: "u8 list" where
  \<comment> \<open>a key container: eight bytes, then the source bytes 0..15\<close>
  "mdb_demo = [0xDE, 0xAD, 0xBE, 0xEF, 0, 0, 0, 0,
               0, 1, 2, 3, 4, 5, 6, 7, 8, 9, 10, 11, 12, 13, 14, 15]"

definition E_demo :: env where
  \<comment> \<open>AES-NI enabled; of the key containers only \<open>b.mdb\<close> can be opened\<close>
  "E_demo = \<lparr>enable_aesni = True,
     block_init_aes = (\<lambda>st key keylen. st),
     block_decrypt_aes = (\<lambda>st blk. blk),
     tek_alloc = Some (\<lambda>_. zero128),
     tdk_alloc = Some (\<lambda>_. zero128),
     stack_bytes = (\<lambda>_. 0),
     fopen_rb = (\<lambda>path. if path = ''b.mdb'' then Some mdb_demo else None),
     open_wronly = (\<lambda>_. True),
     open_rdonly = (\<lambda>_. True),
     outfile_of = (\<lambda>outdir srffile. outdir @ srffile @ ''.ts''),
     copy_returns = (\<lambda>_. True)\<rparr>"

definition st_demo :: block_state where
  "st_demo = block_init_aesni (Some (\<lambda>_. zero128)) (Some (\<lambda>_. zero128)) null_state key_0_15 16"

definition pkt_scrambled :: "u8 list" where
  \<comment> \<open>scrambling bits 11, no adaptation field; the last eight bytes are 1..8\<close>
  "pkt_scrambled = [0x47, 0x40, 0x11, 0xD0] @ replicate 176 0xAA @ [1, 2, 3, 4, 5, 6, 7, 8]"

definition pkt_adaptation :: "u8 list" where
  \<comment> \<open>scrambling bits 10, an adaptation field of length 10\<close>
  "pkt_adaptation = [0x47, 0x40, 0x11, 0xB0, 10] @ replicate 183 0x55"

definition pkt_clear :: "u8 list" where
  \<comment> \<open>scrambling bits 00\<close>
  "pkt_clear = [0x47, 0x40, 0x11, 0x10] @ replicate 184 0x55"

definition pkt_long_field :: "u8 list" where
  \<comment> \<open>scrambling bits 11, an adaptation field length of 255\<close>
  "pkt_long_field = [0x47, 0x40, 0x11, 0xF0, 0xFF] @ replicate 183 0x55"

definition pb_demo :: packetbuffer where
  \<comment> \<open>378 bytes with the sync marker at 1, 189 and 377\<close>
  "pb_demo = \<lparr>storage = [0, 0x47] @ replicate 187 0 @ [0x47] @ replicate 187 0 @ [0x47],
              workp = 0, endp = 378, end_of_stream = False\<rparr>"

definition argv_demo :: "string list" where
  "argv_demo = [''drmdecrypt'', ''a.srf'', ''b.srf'']"

section \<open>Properties of the cipher engine\<close>

subsection \<open>The round steps and their inverses\<close>

lemma sbox_tab_inverse:
  "list_all (\<lambda>n. inv_sbox_tab ! unat (sbox_tab ! n) = of_nat n) [0..<256]"
  by code_simp

lemma InvSubByte_SubByte: "InvSubByte (SubByte b) = b"
proof -
  have "unat b < 256" using unsigned_less [of b, where 'a = nat] by simp
  then have "unat b \<in> set [0..<256]" by simp
  with sbox_tab_inverse have "inv_sbox_tab ! unat (sbox_tab ! unat b) = of_nat (unat b)"
    unfolding list_all_iff by blast
  then show ?thesis by (simp add: InvSubByte_def SubByte_def)
qed

text \<open>
  The worked examples of the AES standard: an S-box entry, repeated doubling of 0x57, a
  column through MixColumns, and the first key-expansion step of its 128-bit example
  key (last word 09cf4f3c, round constant 01).
\<close>

lemma SubByte_example: "SubByte 0x53 = 0xED \<and> InvSubByte 0xED = 0x53"
  by (simp add: SubByte_def InvSubByte_def sbox_tab_def inv_sbox_tab_def)

lemma xtime_example: "xtime 0x57 = 0xAE \<and> xtime 0xAE = 0x47 \<and> xtime 0x47 = 0x8E \<and> xtime 0x8E = 0x07"
  by (simp add: xtime_def)

lemma MixColumn_example: "MixColumn (Lane 0xDB 0x13 0x53 0x45) = Lane 0x8E 0x4D 0xA1 0xBC"
  by (simp add: mul2_def mul3_def xtime_def)

lemma RotWord_rcon_example:
  "mm_aeskeygenassist_si128 (M128 (Lane 0 0 0 0) (Lane 0 0 0 0) (Lane 0 0 0 0) (Lane 0x09 0xCF 0x4F 0x3C)) 0x01
   = M128 (Lane 0x63 0x63 0x63 0x63) (Lane 0x62 0x63 0x63 0x63)
          (Lane 0x01 0x8A 0x84 0xEB) (Lane 0x8B 0x84 0xEB 0x01)"
  by (simp add: mm_aeskeygenassist_si128_def SubByte_def sbox_tab_def)

lemmas xor_norm = xor.assoc xor.commute xor.left_commute

lemma xtime_xor: "xtime (a XOR b) = xtime a XOR xtime b"
  by (cases "bit a 7"; cases "bit b 7") (simp_all add: xtime_def bit_xor_iff xor_norm)

lemma InvMixColumn_MixColumn: "InvMixColumn (MixColumn l) = l"
  by (cases l) (simp add: mul2_def mul3_def mul9_def mul11_def mul13_def mul14_def xtime_xor xor_norm)

lemma InvMixColumn_xor: "InvMixColumn (lane_xor a b) = lane_xor (InvMixColumn a) (InvMixColumn b)"
  by (cases a; cases b) (simp add: mul9_def mul11_def mul13_def mul14_def xtime_xor xor_norm)

lemma lane_xor_cancel: "lane_xor (lane_xor a b) b = a"
  by (cases a; cases b) (simp add: xor_norm)

lemma mm_xor_cancel: "mm_xor_si128 (mm_xor_si128 a b) b = a"
  by (cases a; cases b) (simp add: lane_xor_cancel)

lemma InvMixColumns_MixColumns: "InvMixColumns (MixColumns v) = v"
  by (cases v) (simp add: InvMixColumn_MixColumn)

lemma InvMixColumns_xor:
  "InvMixColumns (mm_xor_si128 a b) = mm_xor_si128 (InvMixColumns a) (InvMixColumns b)"
  by (cases a; cases b) (simp add: InvMixColumn_xor)

lemma InvSubWord_SubWord: "InvSubWord (SubWord l) = l"
  by (cases l) (simp add: InvSubByte_SubByte)

lemma inv_sub_shift: "InvSubBytes (InvShiftRows (SubBytes (ShiftRows v))) = v"
proof -
  obtain a b c d where v: "v = M128 a b c d" by (cases v)
  show ?thesis unfolding v
    by (cases a; cases b; cases c; cases d) (simp add: InvSubByte_SubByte)
qed

lemma aesenclast_xor: "mm_xor_si128 (mm_aesenclast_si128 m k) k = SubBytes (ShiftRows m)"
  by (simp add: mm_aesenclast_si128_def mm_xor_cancel)

lemma aesdec_aesenc:
  "mm_aesdec_si128 (SubBytes (ShiftRows (mm_aesenc_si128 x k))) (mm_aesimc_si128 k) =
   SubBytes (ShiftRows x)"
  by (simp add: mm_aesdec_si128_def mm_aesenc_si128_def mm_aesimc_si128_def inv_sub_shift
      InvMixColumns_xor InvMixColumns_MixColumns mm_xor_cancel)

lemma aesdeclast_first: "mm_aesdeclast_si128 (SubBytes (ShiftRows (mm_xor_si128 m k))) k = m"
  by (simp add: mm_aesdeclast_si128_def inv_sub_shift mm_xor_cancel)

lemma loadu_storeu: "mm_loadu_si128 (mm_storeu_si128 v) 0 = v"
proof -
  obtain a b c d where v: "v = M128 a b c d" by (cases v)
  show ?thesis unfolding v
    by (cases a; cases b; cases c; cases d)
       (simp add: mm_loadu_si128_def mm_storeu_si128_def lanes_def lane_bytes_def lane_at_def byte_at_def)
qed

lemma list16:
  assumes "length p = 16"
  obtains x0 x1 x2 x3 x4 x5 x6 x7 x8 x9 x10 x11 x12 x13 x14 x15 :: 'a
  where "p = [x0, x1, x2, x3, x4, x5, x6, x7, x8, x9, x10, x11, x12, x13, x14, x15]"
proof -
  have upt16: "[0..<16] = [0, 1, 2, 3, 4, 5, 6, 7, 8, 9, 10, 11, 12, 13, 14, 15::nat]"
    by code_simp
  have "map ((!) p) [0..<length p] = p" by (rule map_nth)
  with assms have "p = map ((!) p) [0..<16]" by simp
  then have "p = [p ! 0, p ! 1, p ! 2, p ! 3, p ! 4, p ! 5, p ! 6, p ! 7, p ! 8, p ! 9, p ! 10,
      p ! 11, p ! 12, p ! 13, p ! 14, p ! 15]"
    unfolding upt16 by simp
  then show ?thesis by (rule that)
qed

lemma storeu_loadu: "length p = 16 \<Longrightarrow> mm_storeu_si128 (mm_loadu_si128 p 0) = p"
  by (erule list16)
     (simp add: mm_loadu_si128_def mm_storeu_si128_def lanes_def lane_bytes_def lane_at_def byte_at_def)

lemma length_storeu [simp]: "length (mm_storeu_si128 v) = 16"
proof -
  obtain a b c d where v: "v = M128 a b c d" by (cases v)
  show ?thesis unfolding v
    by (cases a; cases b; cases c; cases d) (simp add: mm_storeu_si128_def lanes_def lane_bytes_def)
qed

lemma roundtrip_core:
  assumes nr: "rounds st = 10 \<or> rounds st = 12 \<or> rounds st = 14"
    and d0: "dk st ! 0 = ek st ! nat (rounds st)"
    and dn: "dk st ! nat (rounds st) = ek st ! 0"
    and dj: "\<And>j. 0 < j \<Longrightarrow> j < nat (rounds st) \<Longrightarrow>
               dk st ! j = mm_aesimc_si128 (ek st ! (nat (rounds st) - j))"
    and len: "length p = 16"
  shows "block_decrypt_aesni st (block_encrypt_aesni st p) = p"
proof -
  from nr consider "rounds st = 10" | "rounds st = 12" | "rounds st = 14" by blast
  then show ?thesis
  proof cases
    case 1
    with d0 dn dj len show ?thesis
      by (simp add: block_decrypt_aesni_def block_encrypt_aesni_def Let_def loadu_storeu
          storeu_loadu aesenclast_xor aesdec_aesenc aesdeclast_first)
  next
    case 2
    with d0 dn dj len show ?thesis
      by (simp add: block_decrypt_aesni_def block_encrypt_aesni_def Let_def loadu_storeu
          storeu_loadu aesenclast_xor aesdec_aesenc aesdeclast_first)
  next
    case 3
    with d0 dn dj len show ?thesis
      by (simp add: block_decrypt_aesni_def block_encrypt_aesni_def Let_def loadu_storeu
          storeu_loadu aesenclast_xor aesdec_aesenc aesdeclast_first)
  qed
qed

subsection \<open>The two key schedules\<close>

lemma length_dec_loop [simp]: "length (aes_key_setup_dec_loop dks eks nr i) = length dks"
  by (induction dks eks nr i rule: aes_key_setup_dec_loop.induct)
     (subst aes_key_setup_dec_loop.simps, simp)

lemma nth_dec_loop:
  "0 \<le> i \<Longrightarrow> j < length dks \<Longrightarrow>
   aes_key_setup_dec_loop dks eks nr i ! j =
     (if 1 \<le> int j \<and> int j \<le> nr - i then mm_aesimc_si128 (eks ! nat (nr - int j)) else dks ! j)"
proof (induction dks eks nr i rule: aes_key_setup_dec_loop.induct)
  case (1 dks eks nr i)
  show ?case
  proof (cases "i < nr")
    case True
    have "aes_key_setup_dec_loop dks eks nr i ! j =
          aes_key_setup_dec_loop (dks[nat (nr - i) := mm_aesimc_si128 (eks ! nat i)]) eks nr (i + 1) ! j"
      using True by (subst aes_key_setup_dec_loop.simps) simp
    also have "\<dots> = (if 1 \<le> int j \<and> int j \<le> nr - (i + 1) then mm_aesimc_si128 (eks ! nat (nr - int j))
                     else dks[nat (nr - i) := mm_aesimc_si128 (eks ! nat i)] ! j)"
      using "1.IH" [OF True] "1.prems" by simp
    also have "\<dots> = (if 1 \<le> int j \<and> int j \<le> nr - i then mm_aesimc_si128 (eks ! nat (nr - int j)) else dks ! j)"
    proof (cases "int j = nr - i")
      case True
      then have "nat (nr - i) = j" "nat (nr - int j) = nat i" by simp_all
      with "1.prems" \<open>i < nr\<close> True show ?thesis by simp
    next
      case False
      with \<open>i < nr\<close> have "nat (nr - i) \<noteq> j" by auto
      with False show ?thesis by auto
    qed
    finally show ?thesis .
  next
    case False
    then show ?thesis by (subst aes_key_setup_dec_loop.simps) auto
  qed
qed

lemma nth_aes_key_setup_dec:
  assumes "length dks = Suc n" "j \<le> n"
  shows "aes_key_setup_dec dks eks (int n) ! j =
     (if j = 0 then eks ! n else if j = n then eks ! 0 else mm_aesimc_si128 (eks ! (n - j)))"
  using assms by (auto simp: aes_key_setup_dec_def Let_def nth_dec_loop nth_list_update nat_diff_distrib')

lemma length_aes_key_setup_dec [simp]: "length (aes_key_setup_dec dks eks nr) = length dks"
  by (simp add: aes_key_setup_dec_def Let_def)

lemma length_Let_list:
  "length a = n \<Longrightarrow> (\<And>x. length x = n \<Longrightarrow> length (f x) = n) \<Longrightarrow> length (Let a f) = n"
  by simp

lemma length_Let_other: "(\<And>x. length (f x) = n) \<Longrightarrow> length (Let a f) = n"
  by simp

lemma length_if: "(c \<Longrightarrow> length a = n) \<Longrightarrow> (\<not> c \<Longrightarrow> length b = n) \<Longrightarrow> length (if c then a else b) = n"
  by simp

lemma length_aes_key_setup_enc: "length (aes_key_setup_enc rk key keylen) = length rk"
  unfolding aes_key_setup_enc_def
  by (rule length_if | (rule length_Let_list, simp only: length_list_update) | rule length_Let_other
      | simp only: length_list_update | rule refl)+

lemma block_init_fields:
  fixes fe fd self key keylen
  assumes "keylen = 16 \<or> keylen = 24 \<or> keylen = 32"
  defines "st \<equiv> block_init_aesni (Some fe) (Some fd) self key keylen"
  shows "rounds st = int (nr_of keylen)"
    and "length (ek st) = Suc (nr_of keylen)"
    and "dk st = aes_key_setup_dec (fresh_array fd (int (nr_of keylen) + 1)) (ek st) (int (nr_of keylen))"
  using assms(1) unfolding st_def
  by (auto simp: block_init_aesni_def nr_of_def Let_def fresh_array_def length_aes_key_setup_enc)

lemma block_init_dk_nth:
  fixes fe fd self key keylen
  assumes "keylen = 16 \<or> keylen = 24 \<or> keylen = 32" and "j \<le> nr_of keylen"
  defines "st \<equiv> block_init_aesni (Some fe) (Some fd) self key keylen"
  shows "dk st ! j = (if j = 0 then ek st ! nr_of keylen else if j = nr_of keylen then ek st ! 0
                      else mm_aesimc_si128 (ek st ! (nr_of keylen - j)))"
proof -
  have "length (fresh_array fd (int (nr_of keylen) + 1)) = Suc (nr_of keylen)"
    by (simp add: fresh_array_def nat_add_distrib)
  then show ?thesis
    unfolding st_def block_init_fields(3) [OF assms(1)]
    using assms(2) by (rule nth_aes_key_setup_dec)
qed

lemma nth_decryption_schedule_spec:
  assumes "length eks = Suc n" "j \<le> n"
  shows "decryption_schedule_spec eks ! j =
     (if j = 0 then eks ! n else if j = n then eks ! 0 else mm_aesimc_si128 (eks ! (n - j)))"
  using assms by (auto simp: decryption_schedule_spec_def rev_nth simp del: upt_Suc)

text \<open>
  C2.  For a key length of 16, 24 or 32 bytes the decryption round keys that
  \<^verbatim>\<open>block_init_aesni\<close> leaves in \<open>dk\<close> are the encryption round keys of \<open>ek\<close> in reverse
  order, with the inverse mix-columns transform applied to every round key except the
  first and the last, which are copied unchanged.  The previous contents of the two
  arrays do not matter.
\<close>

theorem dec_schedule_reversed:
  assumes "keylen = 16 \<or> keylen = 24 \<or> keylen = 32"
  shows "dk (block_init_aesni (Some fe) (Some fd) self key keylen) =
         decryption_schedule_spec (ek (block_init_aesni (Some fe) (Some fd) self key keylen))"
proof (rule nth_equalityI)
  let ?st = "block_init_aesni (Some fe) (Some fd) self key keylen"
  have len: "length (ek ?st) = Suc (nr_of keylen)"
    using assms by (rule block_init_fields)
  have ldk: "length (dk ?st) = Suc (nr_of keylen)"
    unfolding block_init_fields(3) [OF assms]
    by (simp add: fresh_array_def nat_add_distrib)
  show "length (dk ?st) = length (decryption_schedule_spec (ek ?st))"
    by (simp add: ldk len decryption_schedule_spec_def)
  fix j assume "j < length (dk ?st)"
  then have j: "j \<le> nr_of keylen" using ldk by simp
  show "dk ?st ! j = decryption_schedule_spec (ek ?st) ! j"
    by (simp only: block_init_dk_nth [OF assms j] nth_decryption_schedule_spec [OF len j])
qed

theorem dec_schedule_reversed_witness:
  "((16::int) = 16 \<or> (16::int) = 24 \<or> (16::int) = 32) \<and>
   dk (block_init_aesni (Some (\<lambda>_. zero128)) (Some (\<lambda>_. zero128)) null_state key_0_15 16) =
   decryption_schedule_spec
     (ek (block_init_aesni (Some (\<lambda>_. zero128)) (Some (\<lambda>_. zero128)) null_state key_0_15 16))"
  using dec_schedule_reversed [of 16 "\<lambda>_. zero128" "\<lambda>_. zero128" null_state key_0_15] by simp

text \<open>
  C1.  For a key length of 16, 24 or 32 bytes and every block \<open>p\<close> of 16 bytes,
  encrypting \<open>p\<close> under the state that \<^verbatim>\<open>block_init_aesni\<close> derives from the key and
  decrypting the result under the same state gives \<open>p\<close> back.
\<close>

theorem encrypt_decrypt_roundtrip:
  assumes "keylen = 16 \<or> keylen = 24 \<or> keylen = 32" and "length p = 16"
  shows "block_decrypt_aesni (block_init_aesni (Some fe) (Some fd) self key keylen)
           (block_encrypt_aesni (block_init_aesni (Some fe) (Some fd) self key keylen) p) = p"
proof (rule roundtrip_core)
  let ?st = "block_init_aesni (Some fe) (Some fd) self key keylen"
  have r: "rounds ?st = int (nr_of keylen)" using assms(1) by (rule block_init_fields)
  show "rounds ?st = 10 \<or> rounds ?st = 12 \<or> rounds ?st = 14"
    using assms(1) by (auto simp: r nr_of_def)
  show "dk ?st ! 0 = ek ?st ! nat (rounds ?st)"
    by (simp add: r block_init_dk_nth [OF assms(1)])
  show "dk ?st ! nat (rounds ?st) = ek ?st ! 0"
    by (simp add: r block_init_dk_nth [OF assms(1)] nr_of_def)
  show "dk ?st ! j = mm_aesimc_si128 (ek ?st ! (nat (rounds ?st) - j))"
    if "0 < j" "j < nat (rounds ?st)" for j
    using that by (simp add: r block_init_dk_nth [OF assms(1)])
  show "length p = 16" by fact
qed

theorem encrypt_decrypt_roundtrip_witness:
  "((16::int) = 16 \<or> (16::int) = 24 \<or> (16::int) = 32) \<and> length block_00_ff = 16 \<and>
   block_decrypt_aesni
     (block_init_aesni (Some (\<lambda>_. zero128)) (Some (\<lambda>_. zero128)) null_state key_0_15 16)
     (block_encrypt_aesni
        (block_init_aesni (Some (\<lambda>_. zero128)) (Some (\<lambda>_. zero128)) null_state key_0_15 16)
        block_00_ff) = block_00_ff"
proof -
  have len: "length block_00_ff = 16" by (simp add: block_00_ff_def)
  show ?thesis
    using len encrypt_decrypt_roundtrip [of 16 block_00_ff "\<lambda>_. zero128" "\<lambda>_. zero128"
        null_state key_0_15]
    by simp
qed

section \<open>Key provisioning\<close>

lemma readdrmkey_loop_unrolled:
  assumes "24 \<le> length file"
  shows "readdrmkey_loop file 8 k 0 =
    Some (k[3 := file ! 8, 2 := file ! 9, 1 := file ! 10, 0 := file ! 11,
            7 := file ! 12, 6 := file ! 13, 5 := file ! 14, 4 := file ! 15,
            11 := file ! 16, 10 := file ! 17, 9 := file ! 18, 8 := file ! 19,
            15 := file ! 20, 14 := file ! 21, 13 := file ! 22, 12 := file ! 23])"
  using assms by (simp add: readdrmkey_loop.simps del: One_nat_def) (simp add: numeral_2_eq_2)

lemma readdrmkey_loop_16:
  assumes "24 \<le> length file" "length k = 16"
  shows "readdrmkey_loop file 8 k 0 =
    Some [file ! 11, file ! 10, file ! 9, file ! 8, file ! 15, file ! 14, file ! 13, file ! 12,
          file ! 19, file ! 18, file ! 17, file ! 16, file ! 23, file ! 22, file ! 21, file ! 20]"
  unfolding readdrmkey_loop_unrolled [OF assms(1)]
  by (rule list16 [OF assms(2)]) simp



lemma key_positions:
  assumes "j < 16"
  shows "[f ! 11, f ! 10, f ! 9, f ! 8, f ! 15, f ! 14, f ! 13, f ! 12,
          f ! 19, f ! 18, f ! 17, f ! 16, f ! 23, f ! 22, f ! 21, f ! 20] ! ((j AND 0xc) + (3 - (j AND 3)))
         = f ! (8 + j)"
proof -
  from assms have "j = 0 \<or> j = 1 \<or> j = 2 \<or> j = 3 \<or> j = 4 \<or> j = 5 \<or> j = 6 \<or> j = 7
    \<or> j = 8 \<or> j = 9 \<or> j = 10 \<or> j = 11 \<or> j = 12 \<or> j = 13 \<or> j = 14 \<or> j = 15"
    by arith
  then show ?thesis by (elim disjE) simp_all
qed

text \<open>
  C3.  When the key container can be opened and holds at least 16 bytes after offset 8,
  the read loop of \<^verbatim>\<open>readdrmkey\<close> ends with a key buffer in which source byte \<open>j\<close>
  (the byte at file offset \<open>8 + j\<close>, \<open>j < 16\<close>) is at position
  \<open>(j & 0xC) + (3 - (j & 3))\<close>: source bytes 0..15 give 3,2,1,0, 7,6,5,4, 11,10,9,8,
  15,14,13,12.  \<^verbatim>\<open>readdrmkey\<close> returns 0 and initialises the cipher with that buffer.
\<close>

theorem readdrmkey_reorders:
  assumes "fopen_rb E mdbfile = Some f" and "24 \<le> length f"
  shows "\<exists>key. readdrmkey_loop f 8 (map (stack_bytes E) [0..<0x10]) 0 = Some key
           \<and> length key = 16
           \<and> (\<forall>j<16. key ! ((j AND 0xc) + (3 - (j AND 3))) = f ! (8 + j))
           \<and> key = [f ! 11, f ! 10, f ! 9, f ! 8, f ! 15, f ! 14, f ! 13, f ! 12,
                    f ! 19, f ! 18, f ! 17, f ! 16, f ! 23, f ! 22, f ! 21, f ! 20]
           \<and> readdrmkey E mdbfile =
               (0, if enable_aesni E
                   then block_init_aesni (tek_alloc E) (tdk_alloc E)
                          \<lparr>ek = [], dk = [], rounds = 10\<rparr> key 16
                   else block_init_aes E \<lparr>ek = [], dk = [], rounds = 10\<rparr> key 16)"
proof -
  let ?key = "[f ! 11, f ! 10, f ! 9, f ! 8, f ! 15, f ! 14, f ! 13, f ! 12,
               f ! 19, f ! 18, f ! 17, f ! 16, f ! 23, f ! 22, f ! 21, f ! 20]"
  have loop: "readdrmkey_loop f 8 (map (stack_bytes E) [0..<0x10]) 0 = Some ?key"
    using assms(2) by (rule readdrmkey_loop_16) simp
  have pos: "\<forall>j<16. ?key ! ((j AND 0xc) + (3 - (j AND 3))) = f ! (8 + j)"
    using key_positions by blast
  have run: "readdrmkey E mdbfile =
               (0, if enable_aesni E
                   then block_init_aesni (tek_alloc E) (tdk_alloc E)
                          \<lparr>ek = [], dk = [], rounds = 10\<rparr> ?key 16
                   else block_init_aes E \<lparr>ek = [], dk = [], rounds = 10\<rparr> ?key 16)"
    unfolding readdrmkey_def Let_def assms(1) option.case loop BLOCK_SIZE_def by simp
  from loop pos run show ?thesis by simp
qed

theorem readdrmkey_reorders_witness:
  "fopen_rb E_demo ''b.mdb'' = Some mdb_demo \<and> 24 \<le> length mdb_demo \<and>
   readdrmkey_loop mdb_demo 8 (map (stack_bytes E_demo) [0..<0x10]) 0 =
     Some [3, 2, 1, 0, 7, 6, 5, 4, 11, 10, 9, 8, 15, 14, 13, 12]"
proof -
  have h1: "fopen_rb E_demo ''b.mdb'' = Some mdb_demo" by (simp add: E_demo_def)
  have h2: "24 \<le> length mdb_demo" by (simp add: mdb_demo_def)
  from readdrmkey_reorders [OF h1 h2] obtain key where
    "readdrmkey_loop mdb_demo 8 (map (stack_bytes E_demo) [0..<0x10]) 0 = Some key"
    "key = [mdb_demo ! 11, mdb_demo ! 10, mdb_demo ! 9, mdb_demo ! 8, mdb_demo ! 15, mdb_demo ! 14,
            mdb_demo ! 13, mdb_demo ! 12, mdb_demo ! 19, mdb_demo ! 18, mdb_demo ! 17,
            mdb_demo ! 16, mdb_demo ! 23, mdb_demo ! 22, mdb_demo ! 21, mdb_demo ! 20]"
    by blast
  then show ?thesis using h1 h2 by (simp add: mdb_demo_def)
qed

section \<open>The packet codec\<close>

lemma length_decrypt_block [simp]: "length (decrypt_block E st blk) = 16"
  by (simp add: decrypt_block_def block_decrypt_aesni_def Let_def)

lemma rd_bytes_in: "off + n \<le> length m \<Longrightarrow> rd_bytes m (int off) n = Some (take n (drop off m))"
  by (simp add: rd_bytes_def)

lemma wr_bytes_in:
  "off + length bs \<le> length m \<Longrightarrow>
   wr_bytes m (int off) bs = Some (take off m @ bs @ drop (off + length bs) m)"
  by (simp add: wr_bytes_def)

lemma loop_blocks:
  assumes "length pout = length pin" "off + 16 * n \<le> length pin" "a \<le> n"
  shows "decrypt_aes128cbc_loop E st pin (int off) (16 * int n) pout (int off) (16 * int a) =
         Some (take (off + 16 * a) pout
               @ concat (map (\<lambda>b. decrypt_block E st (take 16 (drop (off + 16 * b) pin))) [a..<n])
               @ drop (off + 16 * n) pout)"
  using assms
proof (induction "n - a" arbitrary: a pout)
  case 0
  then have "a = n" by simp
  then show ?case by (subst decrypt_aes128cbc_loop.simps) simp
next
  case (Suc d)
  then have an: "a < n" by simp
  let ?blk = "decrypt_block E st (take 16 (drop (off + 16 * a) pin))"
  let ?pout = "take (off + 16 * a) pout @ ?blk @ drop (off + 16 * a + 16) pout"
  have in1: "(off + 16 * a) + 16 \<le> length pin" using an Suc.prems by simp
  have r: "rd_bytes pin (int off + 16 * int a) 16 = Some (take 16 (drop (off + 16 * a) pin))"
    using rd_bytes_in [OF in1] by simp
  have w: "wr_bytes pout (int off + 16 * int a) ?blk = Some ?pout"
    using wr_bytes_in [of "off + 16 * a" ?blk pout] in1 Suc.prems by simp
  have len: "length ?pout = length pin" using in1 Suc.prems by simp
  have step: "decrypt_aes128cbc_loop E st pin (int off) (16 * int n) pout (int off) (16 * int a) =
        decrypt_aes128cbc_loop E st pin (int off) (16 * int n) ?pout (int off) (16 * int (Suc a))"
    using an by (subst decrypt_aes128cbc_loop.simps) (simp add: r w BLOCK_SIZE_def add.commute)
  have ih: "decrypt_aes128cbc_loop E st pin (int off) (16 * int n) ?pout (int off) (16 * int (Suc a)) =
         Some (take (off + 16 * Suc a) ?pout
               @ concat (map (\<lambda>b. decrypt_block E st (take 16 (drop (off + 16 * b) pin))) [Suc a..<n])
               @ drop (off + 16 * n) ?pout)"
    using Suc.hyps(2) an Suc.prems len by (intro Suc.hyps(1)) simp_all
  have t: "take (off + 16 * Suc a) ?pout = take (off + 16 * a) pout @ ?blk"
    using in1 Suc.prems by simp
  have d: "drop (off + 16 * n) ?pout = drop (off + 16 * n) pout"
    using in1 Suc.prems an by (simp add: add.commute)
  show ?case unfolding step ih t d using an by (simp add: upt_conv_Cons)
qed

lemma sdiv16_nonneg: "0 \<le> x \<Longrightarrow> x sdiv (16::int) = x div 16"
  by (simp add: signed_divide_int_def sgn_if)

lemma sdiv16_neg: "x < 0 \<Longrightarrow> x sdiv (16::int) = - ((- x) div 16)"
  by (simp add: signed_divide_int_def sgn_if)

lemma smod16_mult: "(q * 16) smod (16::int) = 0"
  by (simp add: signed_modulo_int_def abs_mult)

lemma decrypt_aes128cbc_blocks:
  assumes "length tmp = length data" "length data = 188"
  shows "decrypt_aes128cbc E st data (int off) (((PACKETSIZE - int off) sdiv BLOCK_SIZE) * BLOCK_SIZE)
           tmp (int off) =
         Some (0, take off tmp
                  @ concat (map (\<lambda>b. decrypt_block E st (take 16 (drop (off + 16 * b) data)))
                             [0..<(188 - off) div 16])
                  @ drop (off + 16 * ((188 - off) div 16)) tmp)"
proof (cases "off \<le> 188")
  case True
  let ?n = "(188 - off) div 16"
  have "(188 - int off) sdiv 16 = (188 - int off) div 16"
    using True by (intro sdiv16_nonneg) simp
  also have "\<dots> = int ?n" using True by (simp add: of_nat_diff zdiv_int)
  finally have len: "((PACKETSIZE - int off) sdiv BLOCK_SIZE) * BLOCK_SIZE = 16 * int ?n"
    by (simp add: PACKETSIZE_def BLOCK_SIZE_def)
  have bound: "off + 16 * ?n \<le> length data" using True assms by simp
  have "decrypt_aes128cbc_loop E st data (int off) (16 * int ?n) tmp (int off) (16 * int 0) =
        Some (take (off + 16 * 0) tmp
              @ concat (map (\<lambda>b. decrypt_block E st (take 16 (drop (off + 16 * b) data))) [0..<?n])
              @ drop (off + 16 * ?n) tmp)"
    using assms(1) bound by (rule loop_blocks) simp
  then show ?thesis
    unfolding decrypt_aes128cbc_def len by (simp add: BLOCK_SIZE_def mult.commute [of 16] smod16_mult)
next
  case False
  then have n0: "(188 - off) div 16 = 0" by simp
  have neg: "188 - int off < 0" using False by simp
  have "(188 - int off) sdiv 16 \<le> 0"
    unfolding sdiv16_neg [OF neg] using neg by (simp add: pos_imp_zdiv_nonneg_iff)
  then have le: "((PACKETSIZE - int off) sdiv BLOCK_SIZE) * BLOCK_SIZE \<le> 0"
    by (simp add: PACKETSIZE_def BLOCK_SIZE_def mult_le_0_iff)
  have "decrypt_aes128cbc_loop E st data (int off)
          (((PACKETSIZE - int off) sdiv BLOCK_SIZE) * BLOCK_SIZE) tmp (int off) 0 = Some tmp"
    using le by (subst decrypt_aes128cbc_loop.simps) simp
  then show ?thesis
    unfolding decrypt_aes128cbc_def n0 by (simp add: BLOCK_SIZE_def smod16_mult)
qed

lemma rd_in: "i < length m \<Longrightarrow> rd m (int i) = Some (m ! i)"
  by (simp add: rd_def)

lemma wr_in: "i < length m \<Longrightarrow> wr m (int i) v = Some (m[i := v])"
  by (simp add: wr_def)

lemma length_concat_blocks:
  "length (concat (map (\<lambda>b. decrypt_block E st (f b)) [0..<n])) = 16 * n"
  by (induction n) simp_all

lemma length_decoded_packet:
  assumes "length data = 188"
  shows "length (decoded_packet E st data off (whole_blocks off)) = 188"
proof (cases "off \<le> 188")
  case True
  then have "off + 16 * ((188 - off) div 16) \<le> 188" by simp
  with True assms show ?thesis
    by (simp add: decoded_packet_def whole_blocks_def length_concat_blocks)
next
  case False
  with assms show ?thesis
    by (simp add: decoded_packet_def whole_blocks_def)
qed

lemma decode_packet_scrambled:
  assumes len: "length data = 188" and sync: "data ! 0 = 0x47"
    and sc: "data ! 3 AND 0xC0 = 0xC0 \<or> data ! 3 AND 0xC0 = 0x80"
  shows "decode_packet E st data =
         Some (0, decoded_packet E st data (payload_offset data) (whole_blocks (payload_offset data)))"
proof -
  let ?off = "payload_offset data"
  let ?tmp = "data[3 := data ! 3 AND 0x3f]"
  have r0: "rd data 0 = Some (data ! 0)" using rd_in [of 0 data] len by simp
  have r2: "rd data 2 = Some (data ! 2)" using rd_in [of 2 data] len by simp
  have r3: "rd data 3 = Some (data ! 3)" using rd_in [of 3 data] len by simp
  have r4: "rd data 4 = Some (data ! 4)" using rd_in [of 4 data] len by simp
  have cp: "rd_bytes data 0 (nat PACKETSIZE) = Some data"
    using len by (simp add: rd_bytes_def PACKETSIZE_def)
  have w3: "wr data 3 (data ! 3 AND 0x3f) = Some ?tmp" using wr_in [of 3 data] len by simp
  have off: "(if data ! 3 AND 0x20 \<noteq> 0 then do { d4 \<leftarrow> rd data 4; Some (4 + (uint d4 + 1)) }
             else Some 4) = Some (int ?off)"
    by (simp add: r4 payload_offset_def)
  have off4: "4 \<le> ?off" by (simp add: payload_offset_def)
  have dec: "decrypt_aes128cbc E st data (int ?off)
               (((PACKETSIZE - int ?off) sdiv BLOCK_SIZE) * BLOCK_SIZE) ?tmp (int ?off) =
             Some (0, decoded_packet E st data ?off (whole_blocks ?off))"
  proof -
    have "take ?off ?tmp = (take ?off data)[3 := data ! 3 AND 0x3f]"
      using off4 by (simp add: take_update_swap)
    moreover have "drop (?off + 16 * ((188 - ?off) div 16)) ?tmp =
                   drop (?off + 16 * ((188 - ?off) div 16)) data"
      using off4 by (simp add: drop_update_cancel)
    ultimately show ?thesis
      using decrypt_aes128cbc_blocks [of ?tmp data E st ?off] len
      by (simp add: decoded_packet_def whole_blocks_def)
  qed
  have store: "wr_bytes data 0 (decoded_packet E st data ?off (whole_blocks ?off)) =
              Some (decoded_packet E st data ?off (whole_blocks ?off))"
    using length_decoded_packet [OF len, of E st ?off] len by (simp add: wr_bytes_def)
  show ?thesis
    unfolding decode_packet_def r0 using sync sc
    by (simp add: cp r2 r3 w3 off dec store)
qed

lemma decode_packet_unscrambled:
  assumes len: "length data = 188" and sync: "data ! 0 = 0x47"
    and sc: "data ! 3 AND 0xC0 = 0x00 \<or> data ! 3 AND 0xC0 = 0x40"
  shows "decode_packet E st data = Some (1, data)"
proof -
  have r0: "rd data 0 = Some (data ! 0)" using rd_in [of 0 data] len by simp
  have r2: "rd data 2 = Some (data ! 2)" using rd_in [of 2 data] len by simp
  have r3: "rd data 3 = Some (data ! 3)" using rd_in [of 3 data] len by simp
  have cp: "rd_bytes data 0 (nat PACKETSIZE) = Some data"
    using len by (simp add: rd_bytes_def PACKETSIZE_def)
  from sc have "data ! 3 AND 0xC0 \<noteq> 0xC0 \<and> data ! 3 AND 0xC0 \<noteq> 0x80" by auto
  then show ?thesis
    unfolding decode_packet_def r0 using sync by (simp add: cp r2 r3)
qed

lemma decode_packet_bad_sync:
  assumes len: "0 < length data" and sync: "data ! 0 \<noteq> 0x47"
  shows "decode_packet E st data = Some (1, data)"
  using assms by (simp add: decode_packet_def rd_def)

lemma decode_packet_not_scrambled:
  assumes len: "length data = 188" and sync: "data ! 0 = 0x47"
    and sc: "data ! 3 AND 0xC0 \<noteq> 0xC0" "data ! 3 AND 0xC0 \<noteq> 0x80"
  shows "decode_packet E st data = Some (1, data)"
proof -
  have r0: "rd data 0 = Some (data ! 0)" using rd_in [of 0 data] len by simp
  have r2: "rd data 2 = Some (data ! 2)" using rd_in [of 2 data] len by simp
  have r3: "rd data 3 = Some (data ! 3)" using rd_in [of 3 data] len by simp
  have cp: "rd_bytes data 0 (nat PACKETSIZE) = Some data"
    using len by (simp add: rd_bytes_def PACKETSIZE_def)
  show ?thesis
    unfolding decode_packet_def r0 using sync sc by (simp add: cp r2 r3)
qed

lemma decode_packet_short:
  assumes "length data < 188" "0 < length data" "data ! 0 = 0x47"
  shows "decode_packet E st data = None"
  using assms by (simp add: decode_packet_def rd_def rd_bytes_def PACKETSIZE_def)

lemma mask_clears_scrambling: "(x AND 0x3f) AND (0xC0 :: u8) = 0"
  by (simp add: and.assoc)

text \<open>
  C4, as amended.  For a 188-byte packet with sync byte 0x47, scrambling bits 11 and no
  adaptation field, \<^verbatim>\<open>decode_packet\<close> returns 0 and leaves the packet with the 11
  whole blocks at offsets 4..179 (176 bytes) decrypted in place, the scrambling bits of
  byte 3 cleared, and every other byte, the last eight among them, as it was.
\<close>

theorem decode_no_adaptation_field:
  assumes "length data = 188" and "data ! 0 = 0x47"
    and "data ! 3 AND 0xC0 = 0xC0" and "data ! 3 AND 0x20 = 0"
  shows "decode_packet E st data =
           Some (0, (take 4 data)[3 := data ! 3 AND 0x3f]
                    @ concat (map (\<lambda>b. decrypt_block E st (take 16 (drop (4 + 16 * b) data)))
                               [0..<11])
                    @ drop 180 data)
         \<and> length (concat (map (\<lambda>b. decrypt_block E st (take 16 (drop (4 + 16 * b) data)))
                               [0..<11])) = 176
         \<and> (data ! 3 AND 0x3f) AND 0xC0 = 0"
proof -
  have off: "payload_offset data = 4" using assms(4) by (simp add: payload_offset_def)
  have "decode_packet E st data = Some (0, decoded_packet E st data 4 (whole_blocks 4))"
    using decode_packet_scrambled [OF assms(1,2), of E st] assms(3) off by simp
  then show ?thesis
    by (simp add: decoded_packet_def whole_blocks_def length_concat_blocks mask_clears_scrambling)
qed

theorem decode_no_adaptation_field_witness:
  "length pkt_scrambled = 188 \<and> pkt_scrambled ! 0 = 0x47 \<and> pkt_scrambled ! 3 AND 0xC0 = 0xC0
   \<and> pkt_scrambled ! 3 AND 0x20 = 0
   \<and> decode_packet E_demo st_demo pkt_scrambled =
       Some (0, (take 4 pkt_scrambled)[3 := pkt_scrambled ! 3 AND 0x3f]
                @ concat (map (\<lambda>b. decrypt_block E_demo st_demo
                                       (take 16 (drop (4 + 16 * b) pkt_scrambled))) [0..<11])
                @ drop 180 pkt_scrambled)"
proof -
  have h: "length pkt_scrambled = 188" "pkt_scrambled ! 0 = 0x47"
    "pkt_scrambled ! 3 AND 0xC0 = 0xC0" "pkt_scrambled ! 3 AND 0x20 = 0"
    by (simp_all add: pkt_scrambled_def)
  from decode_no_adaptation_field [OF h, of E_demo st_demo] h show ?thesis by blast
qed

theorem decode_184_bytes_counterexample:
  "map_option (apsnd (drop 180)) (decode_packet E_demo st_demo pkt_scrambled) =
     Some (0, [1, 2, 3, 4, 5, 6, 7, 8])
   \<and> drop 180 pkt_scrambled = [1, 2, 3, 4, 5, 6, 7, 8]"
proof -
  have h: "length pkt_scrambled = 188" "pkt_scrambled ! 0 = 0x47"
    "pkt_scrambled ! 3 AND 0xC0 = 0xC0 \<or> pkt_scrambled ! 3 AND 0xC0 = 0x80"
    by (simp_all add: pkt_scrambled_def)
  have off: "payload_offset pkt_scrambled = 4"
    by (simp add: payload_offset_def pkt_scrambled_def)
  have last8: "drop 180 pkt_scrambled = [1, 2, 3, 4, 5, 6, 7, 8]"
    by (simp add: pkt_scrambled_def)
  have "decode_packet E_demo st_demo pkt_scrambled =
          Some (0, decoded_packet E_demo st_demo pkt_scrambled 4 (whole_blocks 4))"
    using decode_packet_scrambled [OF h, of E_demo st_demo] off by simp
  moreover have "drop 180 (decoded_packet E_demo st_demo pkt_scrambled 4 (whole_blocks 4)) =
                 drop 180 pkt_scrambled"
    using h(1) by (simp add: decoded_packet_def whole_blocks_def length_concat_blocks)
  ultimately show ?thesis using last8 by simp
qed

text \<open>
  C5.  For a 188-byte packet with sync byte 0x47, scrambling bits 10 or 11 and the
  adaptation-field-present bit set, with length byte \<open>L\<close> at offset 4,
  \<^verbatim>\<open>decode_packet\<close> returns 0 and leaves the packet with only the whole 16-byte blocks
  between offset \<open>4 + 1 + L\<close> and byte 188 decrypted in place (none at all when the
  offset lies beyond), the scrambling bits cleared and all other bytes, the trailing ones
  among them, untouched.  For \<open>L = 10\<close> these are 10 blocks (160 bytes) from offset 15,
  and the final 13 bytes are unchanged.
\<close>

theorem decode_adaptation_field:
  assumes "length data = 188" and "data ! 0 = 0x47"
    and "data ! 3 AND 0xC0 = 0x80 \<or> data ! 3 AND 0xC0 = 0xC0" and "data ! 3 AND 0x20 \<noteq> 0"
  shows "decode_packet E st data =
           Some (0, decoded_packet E st data (4 + 1 + unat (data ! 4))
                      ((188 - (4 + 1 + unat (data ! 4))) div 16))
         \<and> (data ! 4 = 10 \<longrightarrow>
               decode_packet E st data = Some (0, decoded_packet E st data 15 10)
             \<and> length (concat (map (\<lambda>b. decrypt_block E st (take 16 (drop (15 + 16 * b) data)))
                                   [0..<10])) = 160
             \<and> drop 175 (decoded_packet E st data 15 10) = drop 175 data
             \<and> length (drop 175 data) = 13)"
proof -
  have off: "payload_offset data = 4 + 1 + unat (data ! 4)"
    using assms(4) by (simp add: payload_offset_def)
  have sc: "data ! 3 AND 0xC0 = 0xC0 \<or> data ! 3 AND 0xC0 = 0x80" using assms(3) by blast
  have run: "decode_packet E st data =
           Some (0, decoded_packet E st data (4 + 1 + unat (data ! 4))
                      ((188 - (4 + 1 + unat (data ! 4))) div 16))"
    using decode_packet_scrambled [OF assms(1,2) sc, of E st] off by (simp add: whole_blocks_def)
  have ten: "drop 175 (decoded_packet E st data 15 10) = drop 175 data"
    using assms(1) by (simp add: decoded_packet_def length_concat_blocks)
  show ?thesis
    using run ten assms(1) by (auto simp: length_concat_blocks)
qed

theorem decode_adaptation_field_witness:
  "length pkt_adaptation = 188 \<and> pkt_adaptation ! 0 = 0x47
   \<and> (pkt_adaptation ! 3 AND 0xC0 = 0x80 \<or> pkt_adaptation ! 3 AND 0xC0 = 0xC0)
   \<and> pkt_adaptation ! 3 AND 0x20 \<noteq> 0 \<and> pkt_adaptation ! 4 = 10
   \<and> decode_packet E_demo st_demo pkt_adaptation =
       Some (0, decoded_packet E_demo st_demo pkt_adaptation 15 10)
   \<and> drop 175 (decoded_packet E_demo st_demo pkt_adaptation 15 10) = drop 175 pkt_adaptation"
proof -
  have h: "length pkt_adaptation = 188" "pkt_adaptation ! 0 = 0x47"
    "pkt_adaptation ! 3 AND 0xC0 = 0x80 \<or> pkt_adaptation ! 3 AND 0xC0 = 0xC0"
    "pkt_adaptation ! 3 AND 0x20 \<noteq> 0"
    by (simp_all add: pkt_adaptation_def)
  have ten: "pkt_adaptation ! 4 = 10" by (simp add: pkt_adaptation_def)
  from decode_adaptation_field [OF h, of E_demo st_demo] h ten show ?thesis by blast
qed

text \<open>
  C6, as amended.  For a 188-byte packet with sync byte 0x47 and scrambling bits 00 or
  01, \<^verbatim>\<open>decode_packet\<close> decrypts nothing, leaves all 188 bytes as they were and
  returns 1, the status it also returns for a packet without the sync byte.
\<close>

theorem decode_unscrambled:
  assumes "length data = 188" and "data ! 0 = 0x47"
    and "data ! 3 AND 0xC0 = 0x00 \<or> data ! 3 AND 0xC0 = 0x40"
  shows "decode_packet E st data = Some (1, data)"
proof -
  from assms(3) have "data ! 3 AND 0xC0 \<noteq> 0xC0" "data ! 3 AND 0xC0 \<noteq> 0x80" by auto
  with assms(1,2) show ?thesis by (rule decode_packet_not_scrambled)
qed

theorem decode_unscrambled_witness:
  "length pkt_clear = 188 \<and> pkt_clear ! 0 = 0x47
   \<and> (pkt_clear ! 3 AND 0xC0 = 0x00 \<or> pkt_clear ! 3 AND 0xC0 = 0x40)
   \<and> decode_packet E_demo st_demo pkt_clear = Some (1, pkt_clear)"
proof -
  have h: "length pkt_clear = 188" "pkt_clear ! 0 = 0x47"
    "pkt_clear ! 3 AND 0xC0 = 0x00 \<or> pkt_clear ! 3 AND 0xC0 = 0x40"
    by (simp_all add: pkt_clear_def)
  from decode_unscrambled [OF h, of E_demo st_demo] h show ?thesis by blast
qed

theorem decode_unscrambled_status_counterexample:
  "decode_packet E_demo st_demo pkt_clear = Some (1, pkt_clear)
   \<and> map_option fst (decode_packet E_demo st_demo pkt_clear) \<noteq> Some 0"
proof -
  have "decode_packet E_demo st_demo pkt_clear = Some (1, pkt_clear)"
    by (rule decode_packet_not_scrambled) (simp_all add: pkt_clear_def)
  then show ?thesis by simp
qed

text \<open>
  C8.  For every 188-byte packet, whatever its adaptation-field length byte,
  \<^verbatim>\<open>decode_packet\<close> makes no access outside the 188 bytes of the packet and of its
  local copy (the model returns \<open>None\<close> at the first such access) and leaves 188 bytes;
  when the payload offset \<open>4 + 1 + length\<close> reaches or exceeds 188, no byte is decrypted:
  only the scrambling bits of byte 3 change.
\<close>

theorem decode_stays_in_packet:
  assumes "length data = 188"
  shows "(\<exists>rc out. decode_packet E st data = Some (rc, out) \<and> length out = 188)
         \<and> (data ! 0 = 0x47 \<and> (data ! 3 AND 0xC0 = 0xC0 \<or> data ! 3 AND 0xC0 = 0x80)
              \<and> data ! 3 AND 0x20 \<noteq> 0 \<and> 188 \<le> 4 + 1 + unat (data ! 4)
            \<longrightarrow> decode_packet E st data = Some (0, data[3 := data ! 3 AND 0x3f]))"
proof (intro conjI impI)
  show "\<exists>rc out. decode_packet E st data = Some (rc, out) \<and> length out = 188"
  proof (cases "data ! 0 = 0x47")
    case False
    then have "decode_packet E st data = Some (1, data)"
      using assms by (intro decode_packet_bad_sync) simp_all
    with assms show ?thesis by simp
  next
    case True
    show ?thesis
    proof (cases "data ! 3 AND 0xC0 = 0xC0 \<or> data ! 3 AND 0xC0 = 0x80")
      case sc: True
      from decode_packet_scrambled [OF assms True sc, of E st] length_decoded_packet [OF assms]
      show ?thesis by simp
    next
      case False
      then have "decode_packet E st data = Some (1, data)"
        using assms True by (intro decode_packet_not_scrambled) simp_all
      with assms show ?thesis by simp
    qed
  qed
next
  assume a: "data ! 0 = 0x47 \<and> (data ! 3 AND 0xC0 = 0xC0 \<or> data ! 3 AND 0xC0 = 0x80)
              \<and> data ! 3 AND 0x20 \<noteq> 0 \<and> 188 \<le> 4 + 1 + unat (data ! 4)"
  then have off: "payload_offset data = 4 + 1 + unat (data ! 4)"
    by (simp add: payload_offset_def)
  have "decoded_packet E st data (4 + 1 + unat (data ! 4)) (whole_blocks (4 + 1 + unat (data ! 4)))
        = data[3 := data ! 3 AND 0x3f]"
    using a assms by (simp add: decoded_packet_def whole_blocks_def)
  with a decode_packet_scrambled [OF assms, of E st] off
  show "decode_packet E st data = Some (0, data[3 := data ! 3 AND 0x3f])" by simp
qed

theorem decode_stays_in_packet_witness:
  "length pkt_long_field = 188
   \<and> (\<exists>rc out. decode_packet E_demo st_demo pkt_long_field = Some (rc, out) \<and> length out = 188)
   \<and> decode_packet E_demo st_demo pkt_long_field =
       Some (0, pkt_long_field[3 := pkt_long_field ! 3 AND 0x3f])"
proof -
  have h: "length pkt_long_field = 188" by (simp add: pkt_long_field_def)
  have c: "pkt_long_field ! 0 = 0x47 \<and>
      (pkt_long_field ! 3 AND 0xC0 = 0xC0 \<or> pkt_long_field ! 3 AND 0xC0 = 0x80)
      \<and> pkt_long_field ! 3 AND 0x20 \<noteq> 0 \<and> 188 \<le> 4 + 1 + unat (pkt_long_field ! 4)"
    by (simp add: pkt_long_field_def)
  from decode_stays_in_packet [OF h, of E_demo st_demo] h c show ?thesis by blast
qed

section \<open>The synchronizer\<close>

lemma sync_at_readable:
  assumes "window_readable pb bound" "i < bound"
  shows "sync_at pb i = Some (sync_pattern_at pb i)"
proof -
  have a: "rd (storage pb) (int (workp pb + i)) = Some (storage pb ! (workp pb + i))"
    using assms by (simp add: rd_def window_readable_def nat_add_distrib)
  have b: "rd (storage pb) (int (workp pb + i) + PACKETSIZE) = Some (storage pb ! (workp pb + i + 188))"
    using assms by (simp add: rd_def window_readable_def PACKETSIZE_def nat_add_distrib add.commute)
  have c: "rd (storage pb) (int (workp pb + i) + PACKETSIZE + PACKETSIZE) =
           Some (storage pb ! (workp pb + i + 376))"
    using assms by (simp add: rd_def window_readable_def PACKETSIZE_def nat_add_distrib add.commute)
  show ?thesis
    unfolding sync_at_def a b c by (simp add: sync_pattern_at_def)
qed

lemma sync_scan_result:
  assumes "window_readable pb bound"
  shows "(\<exists>j. sync_scan pb bound i = Some (Some j) \<and> i \<le> j \<and> j < bound \<and> sync_pattern_at pb j
              \<and> (\<forall>j'. i \<le> j' \<and> j' < j \<longrightarrow> \<not> sync_pattern_at pb j'))
         \<or> (sync_scan pb bound i = Some None \<and> (\<forall>j. i \<le> j \<and> j < bound \<longrightarrow> \<not> sync_pattern_at pb j))"
  using assms
proof (induction "bound - i" arbitrary: i)
  case 0
  then have "sync_scan pb bound i = Some None" by (subst sync_scan.simps) simp
  with 0 show ?case by auto
next
  case (Suc d)
  then have lt: "i < bound" by simp
  have at: "sync_at pb i = Some (sync_pattern_at pb i)"
    using Suc.prems lt by (rule sync_at_readable)
  show ?case
  proof (cases "sync_pattern_at pb i")
    case True
    then have "sync_scan pb bound i = Some (Some i)"
      using lt at by (subst sync_scan.simps) simp
    with True lt show ?thesis by auto
  next
    case False
    then have step: "sync_scan pb bound i = sync_scan pb bound (Suc i)"
      using lt at by (subst sync_scan.simps) simp
    have "d = bound - Suc i" using Suc.hyps(2) by simp
    from Suc.hyps(1) [OF this Suc.prems]
    show ?thesis
    proof (elim disjE exE conjE)
      fix j
      assume j: "sync_scan pb bound (Suc i) = Some (Some j)" "Suc i \<le> j" "j < bound"
        "sync_pattern_at pb j" "\<forall>j'. Suc i \<le> j' \<and> j' < j \<longrightarrow> \<not> sync_pattern_at pb j'"
      have "\<forall>j'. i \<le> j' \<and> j' < j \<longrightarrow> \<not> sync_pattern_at pb j'"
      proof (intro allI impI)
        fix j' assume "i \<le> j' \<and> j' < j"
        then have "j' = i \<or> (Suc i \<le> j' \<and> j' < j)" by auto
        with False j(5) show "\<not> sync_pattern_at pb j'" by auto
      qed
      with j step show ?thesis by auto
    next
      assume n: "sync_scan pb bound (Suc i) = Some None"
        "\<forall>j. Suc i \<le> j \<and> j < bound \<longrightarrow> \<not> sync_pattern_at pb j"
      have "\<forall>j. i \<le> j \<and> j < bound \<longrightarrow> \<not> sync_pattern_at pb j"
      proof (intro allI impI)
        fix j assume "i \<le> j \<and> j < bound"
        then have "j = i \<or> (Suc i \<le> j \<and> j < bound)" by auto
        with False n(2) show "\<not> sync_pattern_at pb j" by auto
      qed
      with n step show ?thesis by auto
    qed
  qed
qed


lemma sync_loop_result:
  assumes "\<forall>k\<in>{1..n}. window_readable ((pbread ^^ k) pb) (scan_bound B)"
  shows "\<exists>sf r pb'. sync_loop pbread B pb (int n) = Some (sf, r, pb')
           \<and> (sf = 1 \<or> sf = 0)
           \<and> (sf = 1 \<longrightarrow>
                 (\<exists>k\<in>{1..n}. \<exists>i < scan_bound B.
                      r = int n - int k
                    \<and> pb' = ((pbread ^^ k) pb)\<lparr>workp := workp ((pbread ^^ k) pb) + i\<rparr>
                    \<and> sync_pattern_at ((pbread ^^ k) pb) i
                    \<and> (\<forall>j<i. \<not> sync_pattern_at ((pbread ^^ k) pb) j)
                    \<and> (\<forall>k'\<in>{1..<k}. \<forall>j < scan_bound B. \<not> sync_pattern_at ((pbread ^^ k') pb) j)))
           \<and> (sf = 0 \<longrightarrow>
                 r = - 1 \<and> pb' = (pbread ^^ n) pb
                 \<and> (\<forall>k\<in>{1..n}. \<forall>j < scan_bound B. \<not> sync_pattern_at ((pbread ^^ k) pb) j))"
  using assms
proof (induction n arbitrary: pb)
  case 0
  have "sync_loop pbread B pb (int 0) = Some (0, - 1, pb)"
    by (subst sync_loop.simps) simp
  then show ?case by simp
next
  case (Suc n)
  let ?w = "pbread pb"
  have shift: "(pbread ^^ k) ?w = (pbread ^^ Suc k) pb" for k
    by (simp add: funpow_swap1)
  have rd1: "window_readable ?w (scan_bound B)"
    using Suc.prems by (auto dest: bspec [where x = 1])
  have rdn: "\<forall>k\<in>{1..n}. window_readable ((pbread ^^ k) ?w) (scan_bound B)"
  proof
    fix k assume "k \<in> {1..n}"
    then have "Suc k \<in> {1..Suc n}" by simp
    with Suc.prems have "window_readable ((pbread ^^ Suc k) pb) (scan_bound B)" by blast
    then show "window_readable ((pbread ^^ k) ?w) (scan_bound B)" by (simp only: shift)
  qed
  from sync_scan_result [OF rd1, of 0]
  show ?case
  proof (elim disjE exE conjE)
    fix i
    assume i: "sync_scan ?w (scan_bound B) 0 = Some (Some i)" "i < scan_bound B"
      "sync_pattern_at ?w i" "\<forall>j'. 0 \<le> j' \<and> j' < i \<longrightarrow> \<not> sync_pattern_at ?w j'"
    have run: "sync_loop pbread B pb (int (Suc n)) = Some (1, int n, ?w\<lparr>workp := workp ?w + i\<rparr>)"
      using i(1) by (subst sync_loop.simps) (simp add: Let_def)
    have "\<exists>k\<in>{1..Suc n}. \<exists>i' < scan_bound B.
              int n = int (Suc n) - int k
            \<and> ?w\<lparr>workp := workp ?w + i\<rparr> = ((pbread ^^ k) pb)\<lparr>workp := workp ((pbread ^^ k) pb) + i'\<rparr>
            \<and> sync_pattern_at ((pbread ^^ k) pb) i'
            \<and> (\<forall>j<i'. \<not> sync_pattern_at ((pbread ^^ k) pb) j)
            \<and> (\<forall>k'\<in>{1..<k}. \<forall>j < scan_bound B. \<not> sync_pattern_at ((pbread ^^ k') pb) j)"
      using i by (intro bexI [where x = 1] exI [where x = i]) auto
    with run show ?thesis by simp
  next
    assume none: "sync_scan ?w (scan_bound B) 0 = Some None"
      "\<forall>j. 0 \<le> j \<and> j < scan_bound B \<longrightarrow> \<not> sync_pattern_at ?w j"
    have run: "sync_loop pbread B pb (int (Suc n)) = sync_loop pbread B ?w (int n)"
      using none(1) by (subst sync_loop.simps) (simp add: Let_def)
    from Suc.IH [OF rdn] obtain sf r pb' where
      res: "sync_loop pbread B ?w (int n) = Some (sf, r, pb')" "sf = 1 \<or> sf = 0"
      and found: "sf = 1 \<longrightarrow>
                 (\<exists>k\<in>{1..n}. \<exists>i < scan_bound B.
                      r = int n - int k
                    \<and> pb' = ((pbread ^^ k) ?w)\<lparr>workp := workp ((pbread ^^ k) ?w) + i\<rparr>
                    \<and> sync_pattern_at ((pbread ^^ k) ?w) i
                    \<and> (\<forall>j<i. \<not> sync_pattern_at ((pbread ^^ k) ?w) j)
                    \<and> (\<forall>k'\<in>{1..<k}. \<forall>j < scan_bound B. \<not> sync_pattern_at ((pbread ^^ k') ?w) j))"
      and lost: "sf = 0 \<longrightarrow>
                 r = - 1 \<and> pb' = (pbread ^^ n) ?w
                 \<and> (\<forall>k\<in>{1..n}. \<forall>j < scan_bound B. \<not> sync_pattern_at ((pbread ^^ k) ?w) j)"
      by blast
    have first: "\<forall>j < scan_bound B. \<not> sync_pattern_at ((pbread ^^ 1) pb) j"
      using none(2) by simp
    have found': "\<exists>k\<in>{1..Suc n}. \<exists>i < scan_bound B.
                      r = int (Suc n) - int k
                    \<and> pb' = ((pbread ^^ k) pb)\<lparr>workp := workp ((pbread ^^ k) pb) + i\<rparr>
                    \<and> sync_pattern_at ((pbread ^^ k) pb) i
                    \<and> (\<forall>j<i. \<not> sync_pattern_at ((pbread ^^ k) pb) j)
                    \<and> (\<forall>k'\<in>{1..<k}. \<forall>j < scan_bound B. \<not> sync_pattern_at ((pbread ^^ k') pb) j)"
      if "sf = 1"
    proof -
      from found that obtain k i where
        k: "k \<in> {1..n}" "i < scan_bound B" "r = int n - int k"
        "pb' = ((pbread ^^ Suc k) pb)\<lparr>workp := workp ((pbread ^^ Suc k) pb) + i\<rparr>"
        "sync_pattern_at ((pbread ^^ Suc k) pb) i"
        "\<forall>j<i. \<not> sync_pattern_at ((pbread ^^ Suc k) pb) j"
        "\<forall>k'\<in>{1..<k}. \<forall>j < scan_bound B. \<not> sync_pattern_at ((pbread ^^ Suc k') pb) j"
        unfolding shift by blast
      have earlier: "\<forall>k'\<in>{1..<Suc k}. \<forall>j < scan_bound B. \<not> sync_pattern_at ((pbread ^^ k') pb) j"
      proof
        fix k' assume "k' \<in> {1..<Suc k}"
        then have "k' = 1 \<or> (\<exists>m\<in>{1..<k}. k' = Suc m)"
          by (cases k') auto
        with first k(7) show "\<forall>j < scan_bound B. \<not> sync_pattern_at ((pbread ^^ k') pb) j"
          by auto
      qed
      show ?thesis
        using k earlier by (intro bexI [where x = "Suc k"] exI [where x = i]) auto
    qed
    have lost': "r = - 1 \<and> pb' = (pbread ^^ Suc n) pb
                 \<and> (\<forall>k\<in>{1..Suc n}. \<forall>j < scan_bound B. \<not> sync_pattern_at ((pbread ^^ k) pb) j)"
      if "sf = 0"
    proof -
      from lost that have l: "r = - 1" "pb' = (pbread ^^ Suc n) pb"
        "\<forall>k\<in>{1..n}. \<forall>j < scan_bound B. \<not> sync_pattern_at ((pbread ^^ Suc k) pb) j"
        unfolding shift by auto
      have "\<forall>k\<in>{1..Suc n}. \<forall>j < scan_bound B. \<not> sync_pattern_at ((pbread ^^ k) pb) j"
      proof
        fix k assume "k \<in> {1..Suc n}"
        then have "k = 1 \<or> (\<exists>m\<in>{1..n}. k = Suc m)"
          by (cases k) auto
        with first l(3) show "\<forall>j < scan_bound B. \<not> sync_pattern_at ((pbread ^^ k) pb) j"
          by auto
      qed
      with l show ?thesis by simp
    qed
    show ?thesis
      unfolding run res(1) using res(2) found' lost' by auto
  qed
qed

text \<open>
  C7.  Provided the windows scanned after each of the ten reads lie inside the buffer's
  storage, the search ends in one of two ways.  With \<open>sync_find = 1\<close>: the cursor has
  been advanced to the smallest offset \<open>i\<close> of the window of some attempt \<open>k\<close> at which
  the bytes at \<open>i\<close>, \<open>i + 188\<close> and \<open>i + 376\<close> all equal 0x47, no window of an earlier
  attempt held such an offset, and \<open>10 - k\<close> retries are left.  With \<open>sync_find = 0\<close>:
  none of the ten windows held such an offset, \<^verbatim>\<open>pbread\<close> has been applied exactly ten
  times, once for each attempt, and \<open>retries\<close> has run down to -1.
\<close>

theorem sync_locks_at_first_pattern:
  assumes "\<forall>k\<in>{1..10}. window_readable ((pbread ^^ k) pb) (scan_bound B)"
  shows "\<exists>sf r pb'. decryptsrf_sync pbread B pb = Some (sf, r, pb')
           \<and> (sf = 1 \<or> sf = 0)
           \<and> (sf = 1 \<longrightarrow>
                 (\<exists>k\<in>{1..10}. \<exists>i < scan_bound B.
                      r = 10 - int k
                    \<and> pb' = ((pbread ^^ k) pb)\<lparr>workp := workp ((pbread ^^ k) pb) + i\<rparr>
                    \<and> sync_pattern_at ((pbread ^^ k) pb) i
                    \<and> (\<forall>j<i. \<not> sync_pattern_at ((pbread ^^ k) pb) j)
                    \<and> (\<forall>k'\<in>{1..<k}. \<forall>j < scan_bound B. \<not> sync_pattern_at ((pbread ^^ k') pb) j)))
           \<and> (sf = 0 \<longrightarrow>
                 r = - 1 \<and> pb' = (pbread ^^ 10) pb
                 \<and> (\<forall>k\<in>{1..10}. \<forall>j < scan_bound B. \<not> sync_pattern_at ((pbread ^^ k) pb) j))"
  using sync_loop_result [of 10 pbread pb B] assms
  unfolding decryptsrf_sync_def by simp

theorem sync_locks_at_first_pattern_witness:
  "window_readable pb_demo (scan_bound 378)
   \<and> decryptsrf_sync id 378 pb_demo = Some (1, 9, pb_demo\<lparr>workp := 1\<rparr>)"
proof -
  have bound: "scan_bound 378 = 2" by (simp add: scan_bound_def PACKETSIZE_def)
  have h: "\<forall>k\<in>{1..10}. window_readable ((id ^^ k) pb_demo) (scan_bound 378)"
    by (simp add: bound window_readable_def pb_demo_def)
  have p0: "\<not> sync_pattern_at pb_demo 0" by (simp add: sync_pattern_at_def pb_demo_def)
  have p1: "sync_pattern_at pb_demo 1"
    by (simp add: sync_pattern_at_def pb_demo_def nth_append)
  from sync_locks_at_first_pattern [OF h] obtain sf r pb' where
    res: "decryptsrf_sync id 378 pb_demo = Some (sf, r, pb')" "sf = 1 \<or> sf = 0"
    and found: "sf = 1 \<longrightarrow>
                 (\<exists>k\<in>{1..10}. \<exists>i < scan_bound 378.
                      r = 10 - int k
                    \<and> pb' = ((id ^^ k) pb_demo)\<lparr>workp := workp ((id ^^ k) pb_demo) + i\<rparr>
                    \<and> sync_pattern_at ((id ^^ k) pb_demo) i
                    \<and> (\<forall>j<i. \<not> sync_pattern_at ((id ^^ k) pb_demo) j)
                    \<and> (\<forall>k'\<in>{1..<k}. \<forall>j < scan_bound 378. \<not> sync_pattern_at ((id ^^ k') pb_demo) j))"
    and lost: "sf = 0 \<longrightarrow>
                 r = - 1 \<and> pb' = (id ^^ 10) pb_demo
                 \<and> (\<forall>k\<in>{1..10}. \<forall>j < scan_bound 378. \<not> sync_pattern_at ((id ^^ k) pb_demo) j)"
    by blast
  have sf: "sf = 1"
  proof (rule ccontr)
    assume "sf \<noteq> 1"
    with res(2) lost have "\<forall>k\<in>{1..10}. \<forall>j < scan_bound 378. \<not> sync_pattern_at ((id ^^ k) pb_demo) j"
      by simp
    then have "\<forall>j < scan_bound 378. \<not> sync_pattern_at ((id ^^ 1) pb_demo) j"
      by (rule bspec) simp
    then have "\<not> sync_pattern_at ((id ^^ 1) pb_demo) 1" unfolding bound by simp
    with p1 show False by simp
  qed
  with found have "\<exists>k\<in>{1..10}. \<exists>i < 2. r = 10 - int k
      \<and> pb' = pb_demo\<lparr>workp := workp pb_demo + i\<rparr> \<and> sync_pattern_at pb_demo i
      \<and> (\<forall>k'\<in>{1..<k}. \<forall>j < 2. \<not> sync_pattern_at pb_demo j)"
    unfolding bound id_funpow id_apply by blast
  then obtain k i where
    k: "k \<in> {1..10}" "i < 2" "r = 10 - int k" "pb' = pb_demo\<lparr>workp := workp pb_demo + i\<rparr>"
      "sync_pattern_at pb_demo i"
      "\<forall>k'\<in>{1..<k}. \<forall>j < 2. \<not> sync_pattern_at pb_demo j"
    by blast
  from k(2,5) p0 have i: "i = 1" by (cases "i = 0") auto
  have "k = 1"
  proof (rule ccontr)
    assume "k \<noteq> 1"
    with k(1) have "1 \<in> {1..<k}" by auto
    with k(6) have "\<forall>j < 2. \<not> sync_pattern_at pb_demo j" by (rule bspec)
    then have "\<not> sync_pattern_at pb_demo 1" by simp
    with p1 show False by simp
  qed
  moreover have "window_readable pb_demo (scan_bound 378)"
    by (simp add: bound window_readable_def pb_demo_def)
  ultimately show ?thesis using res(1) sf k(3,4) i by (simp add: pb_demo_def)
qed

section \<open>The loop over the recordings\<close>

lemma filename_a: "filename ''a.srf'' (Some ''mdb'') = Some ''a.mdb''"
  by (simp add: filename_def numeral_eq_Suc)

lemma filename_with_directory: "filename ''/rec/b.srf'' (Some ''inf'') = Some ''/rec/b.inf''"
  by (simp add: filename_def numeral_eq_Suc)

lemma filename_without_separator: "filename ''abc'' (Some ''inf'') = None"
  by (simp add: filename_def numeral_eq_Suc)

lemma decryptsrf_hard_failure:
  assumes "filename srffile (Some ''mdb'') = Some mdbfile"
    and "fst (readdrmkey E mdbfile) \<noteq> 0 \<or> \<not> open_wronly E (outfile_of E outdir srffile)
         \<or> \<not> open_rdonly E srffile"
  shows "decryptsrf E srffile outdir = Some 1"
proof -
  from assms(1) obtain inffile where "filename srffile (Some ''inf'') = Some inffile"
    by (auto simp: filename_def split: option.splits)
  with assms show ?thesis by (auto simp: decryptsrf_def)
qed

lemma main_loop_stops:
  assumes "decryptsrf E (argv ! optind) outdir = Some rc" "rc \<noteq> 0"
  shows "main_loop E argv outdir optind = Some [(argv ! optind, rc)]"
  using assms by (subst main_loop.simps) simp

lemma readdrmkey_not_found: "fopen_rb E mdbfile = None \<Longrightarrow> fst (readdrmkey E mdbfile) = 1"
  by (simp add: readdrmkey_def)

lemma main_loop_calls:
  assumes "m < length argv" and "optind \<le> m"
    and "\<forall>i. optind \<le> i \<and> i < m \<longrightarrow> decryptsrf E (argv ! i) outdir = Some 0"
    and "decryptsrf E (argv ! m) outdir = Some rc" and "rc \<noteq> 0"
  shows "main_loop E argv outdir optind =
           Some (map (\<lambda>i. (argv ! i, 0)) [optind..<m] @ [(argv ! m, rc)])"
  using assms(2,3)
proof (induction "m - optind" arbitrary: optind)
  case 0
  then have "optind = m" by simp
  then show ?case using assms(4,5) by (simp add: main_loop_stops)
next
  case (Suc d)
  then have lt: "optind < m" by simp
  then have ok: "decryptsrf E (argv ! optind) outdir = Some 0" using Suc.prems by simp
  have more: "Suc optind < length argv" using lt assms(1) by simp
  have "main_loop E argv outdir (Suc optind) =
          Some (map (\<lambda>i. (argv ! i, 0)) [Suc optind..<m] @ [(argv ! m, rc)])"
    using Suc.hyps(2) Suc.prems lt by (intro Suc.hyps(1)) simp_all
  then show ?case
    using ok more lt by (subst main_loop.simps) (simp add: upt_conv_Cons)
qed

text \<open>
  C9, as amended.  When \<^verbatim>\<open>decryptsrf\<close> has returned 0 for the recordings from
  \<open>optind\<close> up to \<open>m\<close> and the recording at \<open>m\<close> fails hard (its key container cannot be
  read, or the destination or the source file cannot be opened), \<^verbatim>\<open>decryptsrf\<close> returns
  1 for it and \<^verbatim>\<open>main\<close> leaves its loop at once: the recording at \<open>m\<close> is the last one
  \<^verbatim>\<open>decryptsrf\<close> is called for, none after it is processed, and the process exits with
  status 0.
\<close>

theorem hard_failure_ends_run:
  assumes "m < length argv" and "optind \<le> m"
    and "\<forall>i. optind \<le> i \<and> i < m \<longrightarrow> decryptsrf E (argv ! i) outdir = Some 0"
    and "filename (argv ! m) (Some ''mdb'') = Some mdbfile"
    and "fst (readdrmkey E mdbfile) \<noteq> 0 \<or> \<not> open_wronly E (outfile_of E outdir (argv ! m))
         \<or> \<not> open_rdonly E (argv ! m)"
  shows "decryptsrf E (argv ! m) outdir = Some 1
         \<and> main_run E argv outdir optind =
             Some (0, map (\<lambda>i. (argv ! i, 0)) [optind..<m] @ [(argv ! m, 1)])"
proof -
  have fail: "decryptsrf E (argv ! m) outdir = Some 1"
    using assms(4,5) by (rule decryptsrf_hard_failure)
  have "main_loop E argv outdir optind =
          Some (map (\<lambda>i. (argv ! i, 0)) [optind..<m] @ [(argv ! m, 1)])"
    using assms(1,2,3) fail by (rule main_loop_calls) simp
  with fail assms(1,2) show ?thesis by (simp add: main_run_def)
qed

lemma readdrmkey_demo_b: "fst (readdrmkey E_demo ''b.mdb'') = 0"
proof -
  have "readdrmkey_loop mdb_demo 8 (map (stack_bytes E_demo) [0..<0x10]) 0 \<noteq> None"
    by (subst readdrmkey_loop_16) (simp_all add: mdb_demo_def)
  then show ?thesis
    by (auto simp: readdrmkey_def E_demo_def split: option.splits)
qed

lemma readdrmkey_demo_a: "fst (readdrmkey E_demo ''a.mdb'') = 1"
  by (rule readdrmkey_not_found) (simp add: E_demo_def)

lemma decryptsrf_demo_b: "decryptsrf E_demo ''b.srf'' ''out/'' = Some 0"
proof -
  have "filename ''b.srf'' (Some ''mdb'') = Some ''b.mdb''"
    "filename ''b.srf'' (Some ''inf'') = Some ''b.inf''"
    by (simp_all add: filename_def numeral_eq_Suc)
  then show ?thesis
    using readdrmkey_demo_b by (simp add: decryptsrf_def) (simp add: E_demo_def)
qed

theorem hard_failure_ends_run_witness:
  "1 < length argv_demo \<and> filename (argv_demo ! 1) (Some ''mdb'') = Some ''a.mdb''
   \<and> fst (readdrmkey E_demo ''a.mdb'') \<noteq> 0
   \<and> decryptsrf E_demo (argv_demo ! 1) ''out/'' = Some 1
   \<and> main_run E_demo argv_demo ''out/'' 1 = Some (0, [(''a.srf'', 1)])"
proof -
  have h1: "1 < length argv_demo" by (simp add: argv_demo_def)
  have h3: "\<forall>i. (1::nat) \<le> i \<and> i < 1 \<longrightarrow> decryptsrf E_demo (argv_demo ! i) ''out/'' = Some 0"
    by simp
  have h4: "filename (argv_demo ! 1) (Some ''mdb'') = Some ''a.mdb''"
    using filename_a by (simp add: argv_demo_def)
  have h5: "fst (readdrmkey E_demo ''a.mdb'') \<noteq> 0 
      \<or> \<not> open_wronly E_demo (outfile_of E_demo ''out/'' (argv_demo ! 1))
      \<or> \<not> open_rdonly E_demo (argv_demo ! 1)"
    using readdrmkey_demo_a by simp
  from hard_failure_ends_run [OF h1 order_refl h3 h4 h5] h1 h4 readdrmkey_demo_a
  show ?thesis by (simp add: argv_demo_def)
qed

theorem next_recording_skipped_counterexample:
  "decryptsrf E_demo ''a.srf'' ''out/'' = Some 1
   \<and> decryptsrf E_demo ''b.srf'' ''out/'' = Some 0
   \<and> main_run E_demo [''drmdecrypt'', ''a.srf'', ''b.srf''] ''out/'' 1 = Some (0, [(''a.srf'', 1)])"
proof -
  have a: "decryptsrf E_demo ''a.srf'' ''out/'' = Some 1"
    using decryptsrf_hard_failure [OF filename_a, of E_demo "''out/''"] readdrmkey_demo_a by simp
  then have "main_loop E_demo [''drmdecrypt'', ''a.srf'', ''b.srf''] ''out/'' 1 = Some [(''a.srf'', 1)]"
    using main_loop_stops [of E_demo "[''drmdecrypt'', ''a.srf'', ''b.srf'']" 1 "''out/''" 1] by simp
  with a decryptsrf_demo_b show ?thesis by (simp add: main_run_def)
qed

section \<open>Unsupported key lengths\<close>

text \<open>
  C10, as amended.  For every key length other than 16, 24 and 32,
  \<^verbatim>\<open>block_init_aesni\<close> returns without reporting anything and leaves the cipher state
  exactly as it was: no schedule is derived.
\<close>

theorem block_init_other_keylen:
  assumes "keylen \<noteq> 16" and "keylen \<noteq> 24" and "keylen \<noteq> 32"
  shows "block_init_aesni tek tdk self key keylen = self"
  using assms by (simp add: block_init_aesni_def)

theorem block_init_other_keylen_witness:
  "(20::int) \<noteq> 16 \<and> (20::int) \<noteq> 24 \<and> (20::int) \<noteq> 32
   \<and> block_init_aesni (Some (\<lambda>_. zero128)) (Some (\<lambda>_. zero128)) null_state key_0_15 20 = null_state"
  using block_init_other_keylen [of 20 "Some (\<lambda>_. zero128)" "Some (\<lambda>_. zero128)" null_state key_0_15]
  by simp

theorem invalid_key_size_counterexample:
  "block_init_aesni (tek_alloc E_demo) (tdk_alloc E_demo) null_state (key_0_15 @ [16, 17, 18, 19]) 20
     = null_state
   \<and> ek (block_init_aesni (tek_alloc E_demo) (tdk_alloc E_demo) null_state
            (key_0_15 @ [16, 17, 18, 19]) 20) = []"
  by (simp add: block_init_aesni_def null_state_def)

end
